theory Spec2Isabelle
  imports Complex_Main "HOL-Library.Log_Nat" "HOL-Library.Sublist"
begin

section \<open>Data model\<close>

text \<open>
  Logger output is the only effect of many branches of the source, so it is kept as a
  list of entries: the level of the call (\<open>logger.debug\<close>, \<open>logger.log\<close>,
  \<open>logger.warn\<close>, \<open>logger.error\<close>) and a tag naming the message.
\<close>

datatype log_level = Debug | Log | Warn | LError

type_synonym log_entry = "log_level \<times> string"

text \<open>
  \<open>BlockchainEvent.data\<close> is typed \<open>any\<close> in the source. The fields the listeners
  write and the handlers read are kept; a field a reader guards with \<open>?.\<close> or \<open>||\<close>
  is an option. Decoded arguments are the object \<open>formatEventArgs\<close> builds.
\<close>

datatype event_args =
    TransferArgs string string string string bool
  | ApprovalArgs string string string string
  | RawArgs "string list"

record EventData =
  topics :: "string list option"
  logIndex :: "nat option"
  transactionIndex :: "nat option"
  gasUsed :: string
  txStatus :: "nat option"
  eventName :: string
  signature :: string
  args :: "event_args option"

record BlockchainEvent =
  chainId :: nat
  blockNumber :: nat
  transactionHash :: string
  eventType :: string
  contractAddress :: string
  data :: "EventData option"
  timestamp :: nat

section \<open>Event dispatcher (event-dispatcher.service.ts)\<close>

text \<open>
  A handler is an object with \<open>canHandle\<close> and \<open>handle\<close>. \<open>handle\<close> acts on the
  state \<open>'w\<close> the handlers share (the stores) and either resolves (\<open>None\<close>) or rejects
  with an error (\<open>Some e\<close>).
\<close>

record 'w IEventHandler =
  handlerName :: string
  canHandle :: "BlockchainEvent \<Rightarrow> bool"
  handle :: "BlockchainEvent \<Rightarrow> 'w \<Rightarrow> string option \<times> 'w"

record 'w EventDispatcherService =
  handlers :: "'w IEventHandler list"
  eventQueue :: "BlockchainEvent list"
  isProcessing :: bool

definition registerHandler ::
  "'w IEventHandler \<Rightarrow> 'w EventDispatcherService \<Rightarrow> 'w EventDispatcherService" where
  "registerHandler h d = d\<lparr>handlers := handlers d @ [h]\<rparr>"

definition getHandlerCount :: "'w EventDispatcherService \<Rightarrow> nat" where
  "getHandlerCount d = length (handlers d)"

definition getQueueSize :: "'w EventDispatcherService \<Rightarrow> nat" where
  "getQueueSize d = length (eventQueue d)"

text \<open>
  The body of the \<open>map\<close> callback of \<open>processEvent\<close>: the handler is awaited inside
  \<open>try\<close>; a rejection is caught and logged at error level, a success at debug level.
  The entry carries the handler's name.
\<close>

definition runHandler ::
  "BlockchainEvent \<Rightarrow> 'w IEventHandler \<Rightarrow> 'w \<Rightarrow> log_entry \<times> 'w" where
  "runHandler ev h w =
     (case handle h ev w of
        (None, w') \<Rightarrow> ((Debug, handlerName h), w')
      | (Some e, w') \<Rightarrow> ((LError, handlerName h), w'))"

text \<open>
  The eligible handlers are started in registration order and awaited together
  (\<open>Promise.allSettled\<close>); their effects on the shared state are taken in that order.
\<close>

fun runHandlers ::
  "BlockchainEvent \<Rightarrow> 'w IEventHandler list \<Rightarrow> 'w \<Rightarrow> log_entry list \<times> 'w" where
  "runHandlers ev [] w = ([], w)"
| "runHandlers ev (h # hs) w =
     (let (l, w1) = runHandler ev h w;
          (ls, w2) = runHandlers ev hs w1
      in (l # ls, w2))"

definition processEvent ::
  "'w IEventHandler list \<Rightarrow> BlockchainEvent \<Rightarrow> 'w \<Rightarrow> log_entry list \<times> 'w" where
  "processEvent hs ev w =
     (let eligibleHandlers = filter (\<lambda>h. canHandle h ev) hs
      in if eligibleHandlers = [] then ([(Warn, ''No handlers found'')], w)
         else runHandlers ev eligibleHandlers w)"

text \<open>
  The \<open>while\<close> loop of \<open>processEventQueue\<close> when nothing else is dispatched while it
  runs: shift the head, await \<open>processEvent\<close>, repeat until the queue is empty. The
  result lists, per drained event, the event and the log of its handlers.
\<close>

fun drainLoop ::
  "'w IEventHandler list \<Rightarrow> BlockchainEvent list \<Rightarrow> 'w \<Rightarrow>
     (BlockchainEvent \<times> log_entry list) list \<times> 'w" where
  "drainLoop hs [] w = ([], w)"
| "drainLoop hs (ev # q) w =
     (let (ls, w1) = processEvent hs ev w;
          (rest, w2) = drainLoop hs q w1
      in ((ev, ls) # rest, w2))"

definition processEventQueue ::
  "'w EventDispatcherService \<Rightarrow> 'w \<Rightarrow>
     (BlockchainEvent \<times> log_entry list) list \<times> 'w EventDispatcherService \<times> 'w" where
  "processEventQueue d w =
     (if isProcessing d then ([], d, w)
      else (let (tr, w') = drainLoop (handlers d) (eventQueue d) w
            in (tr, d\<lparr>eventQueue := [], isProcessing := False\<rparr>, w')))"

definition dispatchEvent ::
  "BlockchainEvent \<Rightarrow> 'w EventDispatcherService \<Rightarrow> 'w \<Rightarrow>
     (BlockchainEvent \<times> log_entry list) list \<times> 'w EventDispatcherService \<times> 'w" where
  "dispatchEvent ev d w =
     (let d1 = d\<lparr>eventQueue := eventQueue d @ [ev]\<rparr>
      in if \<not> isProcessing d1 then processEventQueue d1 w else ([], d1, w))"

subsection \<open>The dispatcher under interleaving\<close>

text \<open>
  \<open>dispatchEvent\<close> and \<open>processEventQueue\<close> are async functions on one thread: code
  runs without interruption between two \<open>await\<close>s. The only \<open>await\<close> inside the drain
  loop is \<open>await this.processEvent(event)\<close>, so a run of the dispatcher is a sequence
  of two kinds of uninterrupted steps:
  \<^item> \<open>Dispatch ev\<close>: a caller enters \<open>dispatchEvent(ev)\<close>. The event is pushed; if
    \<open>isProcessing\<close> is false the caller enters \<open>processEventQueue\<close>, sets the flag,
    shifts the head of the queue and starts \<open>processEvent\<close> on it, where it suspends.
    (With an empty queue the loop is skipped and the flag is reset at once.)
  \<^item> \<open>Settled i\<close>: the handlers awaited by the \<open>i\<close>-th suspended drain loop have all
    settled. That loop resumes: with a non-empty queue it shifts the next head and
    suspends on it; with an empty queue it leaves the loop and \<open>finally\<close> resets the flag.

  The state records every suspended drain loop (\<open>drains\<close>, each with the event it awaits),
  so that the number of active loops is something to prove, not something assumed.
  \<open>enqueued\<close> and \<open>handled\<close> are the histories of pushes and of \<open>processEvent\<close> calls.
\<close>

datatype action = Dispatch BlockchainEvent | Settled nat

record 'w run =
  disp :: "'w EventDispatcherService"
  world :: 'w
  drains :: "BlockchainEvent list"
  enqueued :: "BlockchainEvent list"
  handled :: "BlockchainEvent list"
  logs :: "log_entry list"

text \<open>The loop head of \<open>processEventQueue\<close>, entered by a new or by a resumed drain loop.\<close>

definition loopHead :: "'w run \<Rightarrow> 'w run" where
  "loopHead r =
     (case eventQueue (disp r) of
        [] \<Rightarrow> r\<lparr>disp := (disp r)\<lparr>isProcessing := False\<rparr>\<rparr>
      | ev # q \<Rightarrow>
          (let (ls, w') = processEvent (handlers (disp r)) ev (world r)
           in r\<lparr>disp := (disp r)\<lparr>eventQueue := q\<rparr>,
                 world := w',
                 drains := drains r @ [ev],
                 handled := handled r @ [ev],
                 logs := logs r @ ls\<rparr>))"

fun step :: "'w run \<Rightarrow> action \<Rightarrow> 'w run" where
  "step r (Dispatch ev) =
     (let r1 = r\<lparr>disp := (disp r)\<lparr>eventQueue := eventQueue (disp r) @ [ev]\<rparr>,
                  enqueued := enqueued r @ [ev]\<rparr>
      in if \<not> isProcessing (disp r1)
         then loopHead (r1\<lparr>disp := (disp r1)\<lparr>isProcessing := True\<rparr>\<rparr>)
         else r1)"
| "step r (Settled i) =
     (if i < length (drains r)
      then loopHead (r\<lparr>drains := take i (drains r) @ drop (Suc i) (drains r)\<rparr>)
      else r)"

definition initial :: "'w IEventHandler list \<Rightarrow> 'w \<Rightarrow> 'w run" where
  "initial hs w =
     \<lparr>disp = \<lparr>handlers = hs, eventQueue = [], isProcessing = False\<rparr>,
      world = w, drains = [], enqueued = [], handled = [], logs = []\<rparr>"

definition runActions :: "'w IEventHandler list \<Rightarrow> 'w \<Rightarrow> action list \<Rightarrow> 'w run" where
  "runActions hs w acts = foldl step (initial hs w) acts"

section \<open>Transfer handler: canHandle (erc20-transfer.handler.ts)\<close>

definition TRANSFER_EVENT_SIGNATURE :: string where
  "TRANSFER_EVENT_SIGNATURE =
     ''0xddf252ad1be2c89b69c2b068fc378daa952ba7f163c4a11628f55a4df523b3ef''"

definition APPROVAL_EVENT_SIGNATURE :: string where
  "APPROVAL_EVENT_SIGNATURE =
     ''0x8c5be1e5ebec7d5bd14f71427d1e84f3dd0314c0f7b2291e5b200ac8c7c3b925''"

text \<open>
  \<open>(event.data?.topics as string[]) || []\<close>, then \<open>topics[0]\<close>: \<open>None\<close> stands for
  \<open>undefined\<close>.
\<close>

definition firstTopic :: "BlockchainEvent \<Rightarrow> string option" where
  "firstTopic ev =
     (case data ev of
        None \<Rightarrow> None
      | Some d \<Rightarrow> (case topics d of None \<Rightarrow> None | Some [] \<Rightarrow> None | Some (t # _) \<Rightarrow> Some t))"

text \<open>The variant with the hash as a constant of the class.\<close>

definition isTransferEvent_const :: "BlockchainEvent \<Rightarrow> bool" where
  "isTransferEvent_const ev = (firstTopic ev = Some TRANSFER_EVENT_SIGNATURE)"

definition canHandle_const :: "BlockchainEvent \<Rightarrow> bool" where
  "canHandle_const ev =
     (eventType ev = ''contract_log'' \<and> contractAddress ev \<noteq> [] \<and> isTransferEvent_const ev)"

text \<open>
  Modelled from the spec: the topic hash of an event of \<open>ERC20_ABI\<close>, which the later
  variant of the handler asks of the ethers library
  (\<open>getEventSignatureHash(ERC20_EVENTS.TRANSFER, getABI('erc20'))\<close>, keccak-256 of the
  signature). The library is not part of the repository; the two hashes are the ones the
  spec calls canonical and the repository itself lists (\<open>knownSignatures\<close> of the block
  scan listener). A name with no event in the ABI gives \<open>null\<close>.
\<close>

definition getEventSignatureHash_erc20 :: "string \<Rightarrow> string option" where
  "getEventSignatureHash_erc20 name =
     (if name = ''Transfer'' then Some TRANSFER_EVENT_SIGNATURE
      else if name = ''Approval'' then Some APPROVAL_EVENT_SIGNATURE
      else None)"

definition isTransferEvent :: "BlockchainEvent \<Rightarrow> bool" where
  "isTransferEvent ev =
     (case firstTopic ev of
        None \<Rightarrow> False
      | Some t \<Rightarrow> if t = [] then False else Some t = getEventSignatureHash_erc20 ''Transfer'')"

definition canHandle_erc20 :: "BlockchainEvent \<Rightarrow> bool" where
  "canHandle_erc20 ev =
     (eventType ev = ''contract_log'' \<and> contractAddress ev \<noteq> [] \<and> isTransferEvent ev)"

section \<open>JavaScript numbers, BigInts and number formatting\<close>

text \<open>
  The token amount utilities mix BigInt arithmetic (exact integers, modelled by \<open>int\<close>)
  with Number arithmetic (IEEE-754 binary64). A Number is either a finite value, kept as
  the rational it denotes, an infinity or NaN. Each Number operation of the source is the
  exact operation followed by rounding to the nearest binary64 value, ties to even: 53
  significant bits, least exponent \<open>-1074\<close>, overflow to infinity from \<open>2 ^ 1024\<close>
  (the rounded significand \<open>m\<close> at exponent \<open>k\<close> denotes \<open>m * 2 ^ k\<close>, which reaches
  \<open>2 ^ 1024\<close> exactly when the bit length of \<open>m\<close> plus \<open>k\<close> exceeds 1024).
\<close>

datatype number = Fin rat | PosInfinity | NegInfinity | NaN

datatype js_error = SyntaxError | RangeError

definition round_half_even :: "rat \<Rightarrow> int" where
  "round_half_even x =
     (let f = \<lfloor>x\<rfloor>; r = x - of_int f
      in if r < 1 / 2 then f else if 1 / 2 < r then f + 1 else if even f then f else f + 1)"

text \<open>\<open>ilog2 a\<close> is the binary exponent of a positive rational: \<open>2 ^ e \<le> a < 2 ^ (e + 1)\<close>.\<close>

definition ilog2 :: "rat \<Rightarrow> int" where
  "ilog2 a =
     (let (n, d) = quotient_of a; e0 = bitlen n - bitlen d
      in if 2 powi e0 \<le> a then e0 else e0 - 1)"

definition round_double :: "rat \<Rightarrow> number" where
  "round_double q =
     (if q = 0 then Fin 0
      else let a = \<bar>q\<bar>;
               k = max (ilog2 a - 52) (- 1074);
               m = round_half_even (a / 2 powi k)
           in if 1024 < bitlen m + k then (if 0 < q then PosInfinity else NegInfinity)
              else Fin (sgn q * of_int m * 2 powi k))"

text \<open>
  \<open>10 ** decimals\<close> for a non-negative integer exponent. Up to \<open>10 ** 22\<close> the power is
  a binary64 value and the result is exact; beyond, the engine's result is taken to be the
  correctly rounded one; from \<open>10 ** 309\<close> on it is \<open>Infinity\<close>.
\<close>

definition js_pow10 :: "nat \<Rightarrow> number" where
  "js_pow10 d = round_double (10 ^ d)"

text \<open>\<open>Number(b)\<close> for a BigInt \<open>b\<close>.\<close>

definition Number_of_BigInt :: "int \<Rightarrow> number" where
  "Number_of_BigInt i = round_double (of_int i)"

text \<open>\<open>BigInt(x)\<close> for a Number: a RangeError unless \<open>x\<close> is an integer.\<close>

definition BigInt_of_number :: "number \<Rightarrow> js_error + int" where
  "BigInt_of_number x =
     (case x of
        Fin q \<Rightarrow> if of_int \<lfloor>q\<rfloor> = q then Inr \<lfloor>q\<rfloor> else Inl RangeError
      | _ \<Rightarrow> Inl RangeError)"

text \<open>BigInt division truncates towards zero and throws a RangeError on a zero divisor.\<close>

definition bigint_div :: "int \<Rightarrow> int \<Rightarrow> js_error + int" where
  "bigint_div a b =
     (if b = 0 then Inl RangeError else Inr (sgn a * sgn b * (\<bar>a\<bar> div \<bar>b\<bar>)))"

text \<open>Number division \<open>x / y\<close> (signed zeros are not told apart; a zero divisor is \<open>+0\<close>).\<close>

definition number_div :: "number \<Rightarrow> number \<Rightarrow> number" where
  "number_div x y =
     (case (x, y) of
        (NaN, _) \<Rightarrow> NaN
      | (_, NaN) \<Rightarrow> NaN
      | (Fin a, Fin b) \<Rightarrow>
          if b = 0 then (if a = 0 then NaN else if 0 < a then PosInfinity else NegInfinity)
          else round_double (a / b)
      | (Fin a, _) \<Rightarrow> Fin 0
      | (PosInfinity, Fin b) \<Rightarrow> if 0 \<le> b then PosInfinity else NegInfinity
      | (NegInfinity, Fin b) \<Rightarrow> if 0 \<le> b then NegInfinity else PosInfinity
      | (_, _) \<Rightarrow> NaN)"

text \<open>\<open>x >= t\<close> for a Number \<open>x\<close> and a finite literal \<open>t\<close>.\<close>

definition number_ge :: "number \<Rightarrow> rat \<Rightarrow> bool" where
  "number_ge x t = (case x of Fin a \<Rightarrow> t \<le> a | PosInfinity \<Rightarrow> True | _ \<Rightarrow> False)"

subsection \<open>BigInt(string)\<close>

text \<open>
  \<open>BigInt(s)\<close> follows the StringToBigInt grammar: white space is trimmed; the empty
  string is \<open>0n\<close>; then either decimal digits with an optional sign, or an unsigned
  literal with prefix \<open>0x\<close>, \<open>0o\<close> or \<open>0b\<close>; anything else is a SyntaxError. Strings
  are byte strings here, so the white space is the ASCII one.
\<close>

definition isWhiteSpace :: "char \<Rightarrow> bool" where
  "isWhiteSpace c =
     (c \<in> set [CHR 0x09, CHR 0x0A, CHR 0x0B, CHR 0x0C, CHR 0x0D, CHR '' ''])"

definition trim :: "string \<Rightarrow> string" where
  "trim s = rev (dropWhile isWhiteSpace (rev (dropWhile isWhiteSpace s)))"

definition digitValue :: "char \<Rightarrow> int option" where
  "digitValue =
     map_of [(CHR ''0'', 0), (CHR ''1'', 1), (CHR ''2'', 2), (CHR ''3'', 3), (CHR ''4'', 4),
             (CHR ''5'', 5), (CHR ''6'', 6), (CHR ''7'', 7), (CHR ''8'', 8), (CHR ''9'', 9),
             (CHR ''a'', 10), (CHR ''b'', 11), (CHR ''c'', 12), (CHR ''d'', 13),
             (CHR ''e'', 14), (CHR ''f'', 15),
             (CHR ''A'', 10), (CHR ''B'', 11), (CHR ''C'', 12), (CHR ''D'', 13),
             (CHR ''E'', 14), (CHR ''F'', 15)]"

fun digitsValue :: "int \<Rightarrow> int \<Rightarrow> string \<Rightarrow> int option" where
  "digitsValue base acc [] = Some acc"
| "digitsValue base acc (c # cs) =
     (case digitValue c of
        None \<Rightarrow> None
      | Some v \<Rightarrow> if v < base then digitsValue base (acc * base + v) cs else None)"

definition parseDigits :: "nat \<Rightarrow> string \<Rightarrow> js_error + int" where
  "parseDigits base s =
     (if s = [] then Inl SyntaxError
      else case digitsValue base 0 s of None \<Rightarrow> Inl SyntaxError | Some n \<Rightarrow> Inr n)"

fun parseIntegerLiteral :: "string \<Rightarrow> js_error + int" where
  "parseIntegerLiteral [] = Inr 0"
| "parseIntegerLiteral (c # cs) =
     (if c = CHR ''-'' then map_sum id uminus (parseDigits 10 cs)
      else if c = CHR ''+'' then parseDigits 10 cs
      else if c = CHR ''0'' \<and> cs \<noteq> [] \<and> hd cs \<in> set ''xX'' then parseDigits 16 (tl cs)
      else if c = CHR ''0'' \<and> cs \<noteq> [] \<and> hd cs \<in> set ''oO'' then parseDigits 8 (tl cs)
      else if c = CHR ''0'' \<and> cs \<noteq> [] \<and> hd cs \<in> set ''bB'' then parseDigits 2 (tl cs)
      else parseDigits 10 (c # cs))"

definition BigInt_of_string :: "string \<Rightarrow> js_error + int" where
  "BigInt_of_string s = parseIntegerLiteral (trim s)"

subsection \<open>Number.toLocaleString('en-US', {minimumFractionDigits: 2, maximumFractionDigits: 6})\<close>

definition digitChar :: "nat \<Rightarrow> char" where
  "digitChar d = ''0123456789'' ! d"

function digitsOf :: "nat \<Rightarrow> string" where
  "digitsOf n = (if n < 10 then [digitChar n] else digitsOf (n div 10) @ [digitChar (n mod 10)])"
  by pat_completeness auto
termination
  by (relation "measure id") auto

declare digitsOf.simps [simp del]

text \<open>Grouping of the integer digits in threes from the right, written on the reversed digits.\<close>

fun group3 :: "string \<Rightarrow> string" where
  "group3 (a # b # c # d # rest) = a # b # c # CHR '','' # group3 (d # rest)"
| "group3 ds = ds"

definition grouped :: "string \<Rightarrow> string" where
  "grouped ds = rev (group3 (rev ds))"

text \<open>Six fraction digits, then trailing zeros dropped down to two digits.\<close>

definition fractionDigits :: "nat \<Rightarrow> string" where
  "fractionDigits f = replicate (6 - length (digitsOf f)) CHR ''0'' @ digitsOf f"

definition trimFraction :: "string \<Rightarrow> string" where
  "trimFraction ds = take 2 ds @ rev (dropWhile (\<lambda>c. c = CHR ''0'') (rev (drop 2 ds)))"

text \<open>
  The value is rounded to six fraction digits, ties away from zero (ECMA-402's default
  \<open>halfExpand\<close>), on the exact value of the Number. \<open>INFINITY_SIGN\<close> is the UTF-8
  encoding of the infinity sign.
\<close>

definition INFINITY_SIGN :: string where
  "INFINITY_SIGN = [CHR 0xE2, CHR 0x88, CHR 0x9E]"

definition toLocaleString :: "number \<Rightarrow> string" where
  "toLocaleString x =
     (case x of
        NaN \<Rightarrow> ''NaN''
      | PosInfinity \<Rightarrow> INFINITY_SIGN
      | NegInfinity \<Rightarrow> CHR ''-'' # INFINITY_SIGN
      | Fin q \<Rightarrow>
          (let r = nat \<lfloor>\<bar>q\<bar> * 1000000 + 1 / 2\<rfloor>
           in (if q < 0 then ''-'' else '''') @ grouped (digitsOf (r div 1000000)) @ ''.'' @
              trimFraction (fractionDigits (r mod 1000000))))"

subsection \<open>formatTokenAmount and isLargeTransfer (evm-constants.ts)\<close>

text \<open>The argument \<open>amount: string | bigint\<close>.\<close>

datatype amount = AmountString string | AmountBigInt int

definition amount_toString :: "amount \<Rightarrow> string" where
  "amount_toString a =
     (case a of
        AmountString s \<Rightarrow> s
      | AmountBigInt i \<Rightarrow> (if i < 0 then ''-'' else '''') @ digitsOf (nat \<bar>i\<bar>))"

definition amount_toBigInt :: "amount \<Rightarrow> js_error + int" where
  "amount_toBigInt a = (case a of AmountString s \<Rightarrow> BigInt_of_string s | AmountBigInt i \<Rightarrow> Inr i)"

text \<open>Sequencing of steps that may throw: the first error ends the \<open>try\<close> block.\<close>

definition andThen :: "'e + 'a \<Rightarrow> ('a \<Rightarrow> 'e + 'b) \<Rightarrow> 'e + 'b" where
  "andThen m f = (case m of Inl e \<Rightarrow> Inl e | Inr a \<Rightarrow> f a)"

text \<open>
  The \<open>try\<close> block of \<open>formatTokenAmount\<close>. \<open>maxDecimals\<close> is the default 6 at every
  call of the repository.
\<close>

definition formatTokenAmount_try :: "amount \<Rightarrow> nat \<Rightarrow> js_error + string" where
  "formatTokenAmount_try amt decimals =
     andThen (amount_toBigInt amt) (\<lambda>v.
     andThen (BigInt_of_number (js_pow10 decimals)) (\<lambda>divisor.
     andThen (bigint_div (v * 1000000) divisor) (\<lambda>scaled.
       Inr (toLocaleString (number_div (Number_of_BigInt scaled) (Fin 1000000))))))"

definition formatTokenAmount :: "amount \<Rightarrow> nat \<Rightarrow> string" where
  "formatTokenAmount amt decimals =
     (case formatTokenAmount_try amt decimals of Inl e \<Rightarrow> amount_toString amt | Inr s \<Rightarrow> s)"

definition isLargeTransfer_try :: "amount \<Rightarrow> nat \<Rightarrow> bool \<Rightarrow> js_error + bool" where
  "isLargeTransfer_try amt decimals isStablecoin =
     andThen (amount_toBigInt amt) (\<lambda>v.
     andThen (BigInt_of_number (js_pow10 decimals)) (\<lambda>divisor.
       (let tokenAmount = number_div (Number_of_BigInt v) (Number_of_BigInt divisor)
        in if isStablecoin then Inr (number_ge tokenAmount 100000)
           else Inr (number_ge tokenAmount 1000000))))"

definition isLargeTransfer :: "amount \<Rightarrow> nat \<Rightarrow> bool \<Rightarrow> bool" where
  "isLargeTransfer amt decimals isStablecoin =
     (case isLargeTransfer_try amt decimals isStablecoin of Inl e \<Rightarrow> False | Inr b \<Rightarrow> b)"

text \<open>
  Reading a rendered amount back as a decimal numeral: an optional minus sign, digits, and
  optionally a point and digits; \<open>None\<close> for anything else. This is the real number the
  string denotes once the grouping commas are removed, as in
  \<open>parseFloat(valueFormatted.replace(/,/g, ''))\<close> before that rounds to a Number.
\<close>

definition removeCommas :: "string \<Rightarrow> string" where
  "removeCommas s = filter (\<lambda>c. c \<noteq> CHR '','') s"

definition parseUnsigned :: "string \<Rightarrow> rat option" where
  "parseUnsigned s =
     (let ip = takeWhile (\<lambda>c. c \<noteq> CHR ''.'') s; rest = dropWhile (\<lambda>c. c \<noteq> CHR ''.'') s
      in if ip = [] then None
         else case digitsValue 10 0 ip of
                None \<Rightarrow> None
              | Some i \<Rightarrow>
                  (if rest = [] then Some (of_int i)
                   else case digitsValue 10 0 (tl rest) of
                          None \<Rightarrow> None
                        | Some f \<Rightarrow> if tl rest = [] then None
                                    else Some (of_int i + of_int f / 10 ^ length (tl rest))))"

definition parseAmount :: "string \<Rightarrow> rat option" where
  "parseAmount s =
     (let t = removeCommas s
      in if t \<noteq> [] \<and> hd t = CHR ''-'' then map_option uminus (parseUnsigned (tl t))
         else parseUnsigned t)"

section \<open>Contract configuration and contract data (schemas and services)\<close>

record ContractMetadata =
  md_decimals :: "nat option"
  md_isStablecoin :: "bool option"
  md_priority :: "string option"

text \<open>
  \<open>ContractConfig\<close>: \<open>cc_events\<close> are the topic-0 hashes to monitor; of the ABI only the
  names of the events it declares matter here (\<open>cc_abi\<close>).
\<close>

record ContractConfig =
  cc_address :: string
  cc_chainId :: nat
  cc_name :: string
  cc_symbol :: string
  cc_type :: string
  cc_events :: "string list"
  cc_abi :: "string list"
  cc_enabled :: bool
  cc_metadata :: "ContractMetadata option"

text \<open>\<open>metadata?.decimals || 18\<close>: a missing value and the value 0 both give 18.\<close>

definition configDecimals :: "ContractConfig \<Rightarrow> nat" where
  "configDecimals c =
     (case cc_metadata c of
        None \<Rightarrow> 18
      | Some m \<Rightarrow> (case md_decimals m of None \<Rightarrow> 18 | Some d \<Rightarrow> if d = 0 then 18 else d))"

definition configIsStablecoin :: "ContractConfig \<Rightarrow> bool" where
  "configIsStablecoin c =
     (case cc_metadata c of
        None \<Rightarrow> False
      | Some m \<Rightarrow> (case md_isStablecoin m of None \<Rightarrow> False | Some b \<Rightarrow> b))"

definition configPriority :: "ContractConfig \<Rightarrow> string" where
  "configPriority c =
     (case cc_metadata c of
        None \<Rightarrow> ''medium''
      | Some m \<Rightarrow> (case md_priority m of None \<Rightarrow> ''medium''
                   | Some p \<Rightarrow> if p = [] then ''medium'' else p))"

record CDMetadata =
  tokenType :: "string option"
  lastBlock :: "nat option"
  transferCount :: "nat option"
  largeTransferCount :: "nat option"
  lastTransferTimestamp :: "nat option"
  m_isStablecoin :: "bool option"
  m_priority :: "string option"

text \<open>
  \<open>ContractData\<close>, one document per \<open>(contractAddress, chainId)\<close> (unique index).
  \<open>lastUpdated\<close> (a wall-clock date) and \<open>abi\<close> are left out, as are the copies of the
  token data that \<open>saveERC20Data\<close> also writes into \<open>metadata\<close>.
\<close>

record ContractData =
  cd_contractAddress :: string
  cd_chainId :: nat
  contractType :: string
  collectionKey :: string
  cd_metadata :: CDMetadata
  cd_name :: "string option"
  cd_symbol :: "string option"
  cd_decimals :: "nat option"
  totalSupply :: "string option"
  isActive :: bool
  lastProcessedBlock :: "nat option"
  firstSeenBlock :: "nat option"
  startFromBlock :: "nat option"

type_synonym cd_store = "string \<times> nat \<Rightarrow> ContractData option"

subsection \<open>Store calls that may fail\<close>

text \<open>
  Every call of a store is a place where the driver may throw. A run of a handler gets
  \<open>fault\<close>, which names for each call site (numbered in program order, see \<open>handle_erc20\<close>)
  the error code thrown there, if any; 11000 is MongoDB's duplicate-key error. A store
  operation is a function from the store to a result or an error code, and the store
  after it; \<open>bindOp\<close> sequences two of them, the first error ending the sequence as a
  thrown exception does.
\<close>

type_synonym ('s, 'a) store_op = "'s \<Rightarrow> (nat + 'a) \<times> 's"

definition returnOp :: "'a \<Rightarrow> ('s, 'a) store_op" where
  "returnOp a s = (Inr a, s)"

definition bindOp :: "('s, 'a) store_op \<Rightarrow> ('a \<Rightarrow> ('s, 'b) store_op) \<Rightarrow> ('s, 'b) store_op" where
  "bindOp m f s = (case m s of (Inl e, s') \<Rightarrow> (Inl e, s') | (Inr a, s') \<Rightarrow> f a s')"

definition storeCall ::
  "(nat \<Rightarrow> nat option) \<Rightarrow> nat \<Rightarrow> ('s \<Rightarrow> 'a \<times> 's) \<Rightarrow> ('s, 'a) store_op" where
  "storeCall fault site body s =
     (case fault site of
        Some code \<Rightarrow> (Inl code, s)
      | None \<Rightarrow> (case body s of (a, s') \<Rightarrow> (Inr a, s')))"

subsection \<open>ContractDataService (contract-data.service.ts)\<close>

definition findByAddress ::
  "(nat \<Rightarrow> nat option) \<Rightarrow> nat \<Rightarrow> string \<Rightarrow> nat \<Rightarrow> (cd_store, ContractData option) store_op" where
  "findByAddress fault site addr cid = storeCall fault site (\<lambda>s. (s (addr, cid), s))"

text \<open>
  \<open>findOneAndUpdate({contractAddress, chainId}, update, {new: true})\<close>: the fields of
  \<open>update\<close> are set on the document if there is one; the updated document is returned.
\<close>

definition findOneAndUpdate ::
  "(nat \<Rightarrow> nat option) \<Rightarrow> nat \<Rightarrow> string \<Rightarrow> nat \<Rightarrow> (ContractData \<Rightarrow> ContractData) \<Rightarrow>
     (cd_store, ContractData option) store_op" where
  "findOneAndUpdate fault site addr cid update =
     storeCall fault site
       (\<lambda>s. case s (addr, cid) of
               None \<Rightarrow> (None, s)
             | Some c \<Rightarrow> (Some (update c), s((addr, cid) \<mapsto> update c)))"

definition updateContract ::
  "(nat \<Rightarrow> nat option) \<Rightarrow> nat \<Rightarrow> string \<Rightarrow> nat \<Rightarrow> (ContractData \<Rightarrow> ContractData) \<Rightarrow>
     (cd_store, ContractData option) store_op" where
  "updateContract = findOneAndUpdate"

definition generateCollectionKey :: "string \<Rightarrow> nat \<Rightarrow> string" where
  "generateCollectionKey ty cid = ty @ ''_'' @ digitsOf cid"

text \<open>
  \<open>saveERC20Data\<close> through \<open>upsertContract\<close>: the token data is set on the document of
  the key, which is created if there is none (\<open>isActive\<close> defaults to true).
\<close>

definition saveERC20Data ::
  "(nat \<Rightarrow> nat option) \<Rightarrow> nat \<Rightarrow> string \<Rightarrow> nat \<Rightarrow> string \<Rightarrow> string \<Rightarrow> nat \<Rightarrow> nat \<Rightarrow>
     (cd_store, ContractData) store_op" where
  "saveERC20Data fault site addr cid name symbol decimals blockNo =
     storeCall fault site
       (\<lambda>s. let fresh = \<lparr>cd_contractAddress = addr, cd_chainId = cid, contractType = ''erc20'',
                          collectionKey = generateCollectionKey ''erc20'' cid,
                          cd_metadata = \<lparr>tokenType = Some ''ERC20'', lastBlock = None,
                                         transferCount = None, largeTransferCount = None,
                                         lastTransferTimestamp = None, m_isStablecoin = None,
                                         m_priority = None\<rparr>,
                          cd_name = Some name, cd_symbol = Some symbol,
                          cd_decimals = Some decimals, totalSupply = Some ''0'',
                          isActive = True, lastProcessedBlock = None,
                          firstSeenBlock = Some blockNo, startFromBlock = Some blockNo\<rparr>;
                 c = (case s (addr, cid) of
                        None \<Rightarrow> fresh
                      | Some old \<Rightarrow>
                          fresh\<lparr>isActive := isActive old,
                                lastProcessedBlock := lastProcessedBlock old\<rparr>)
             in (c, s((addr, cid) \<mapsto> c)))"

text \<open>\<open>!x || b > x\<close> and \<open>!x || b < x\<close> for an optional block number \<open>x\<close>.\<close>

definition unsetOrBelow :: "nat option \<Rightarrow> nat \<Rightarrow> bool" where
  "unsetOrBelow x b = (case x of None \<Rightarrow> True | Some p \<Rightarrow> p = 0 \<or> p < b)"

definition unsetOrAbove :: "nat option \<Rightarrow> nat \<Rightarrow> bool" where
  "unsetOrAbove x b = (case x of None \<Rightarrow> True | Some p \<Rightarrow> p = 0 \<or> b < p)"

definition updateLastProcessedBlock ::
  "(nat \<Rightarrow> nat option) \<Rightarrow> nat \<Rightarrow> nat \<Rightarrow> string \<Rightarrow> nat \<Rightarrow> nat \<Rightarrow>
     (cd_store, ContractData option) store_op" where
  "updateLastProcessedBlock fault site1 site2 addr cid blockNo =
     bindOp (findByAddress fault site1 addr cid) (\<lambda>contract.
       case contract of
         None \<Rightarrow> returnOp None
       | Some c \<Rightarrow>
           if unsetOrBelow (lastProcessedBlock c) blockNo
           then findOneAndUpdate fault site2 addr cid (\<lambda>d. d\<lparr>lastProcessedBlock := Some blockNo\<rparr>)
           else returnOp (Some c))"

definition setFirstSeenBlock ::
  "(nat \<Rightarrow> nat option) \<Rightarrow> nat \<Rightarrow> nat \<Rightarrow> string \<Rightarrow> nat \<Rightarrow> nat \<Rightarrow>
     (cd_store, ContractData option) store_op" where
  "setFirstSeenBlock fault site1 site2 addr cid blockNo =
     bindOp (findByAddress fault site1 addr cid) (\<lambda>contract.
       case contract of
         None \<Rightarrow> returnOp None
       | Some c \<Rightarrow>
           if unsetOrAbove (firstSeenBlock c) blockNo
           then findOneAndUpdate fault site2 addr cid (\<lambda>d. d\<lparr>firstSeenBlock := Some blockNo\<rparr>)
           else returnOp (Some c))"

section \<open>Transfer handler (erc20-transfer.handler.ts)\<close>

record ContractInfo =
  ci_name :: string
  ci_symbol :: string
  ci_decimals :: nat
  ci_isStablecoin :: bool
  ci_priority :: string

record ERC20TransferData =
  td_from :: string
  td_to :: string
  td_value :: string
  td_valueFormatted :: string
  td_isLargeTransfer :: bool
  td_contractInfo :: ContractInfo

text \<open>
  \<open>extractTransferData\<close>: \<open>null\<close> unless the decoded arguments have non-empty \<open>from\<close>,
  \<open>to\<close> and \<open>value\<close> (only the object built for a Transfer has them).
\<close>

definition extractTransferData :: "BlockchainEvent \<Rightarrow> ContractConfig \<Rightarrow> ERC20TransferData option" where
  "extractTransferData ev cfg =
     (case data ev of
        None \<Rightarrow> None
      | Some d \<Rightarrow>
          (case args d of
             Some (TransferArgs from to val vf lg) \<Rightarrow>
               if from = [] \<or> to = [] \<or> val = [] then None
               else Some \<lparr>td_from = from, td_to = to, td_value = val,
                          td_valueFormatted = formatTokenAmount (AmountString val) (configDecimals cfg),
                          td_isLargeTransfer =
                            isLargeTransfer (AmountString val) (configDecimals cfg)
                              (configIsStablecoin cfg),
                          td_contractInfo =
                            \<lparr>ci_name = cc_name cfg, ci_symbol = cc_symbol cfg,
                             ci_decimals = configDecimals cfg,
                             ci_isStablecoin = configIsStablecoin cfg,
                             ci_priority = configPriority cfg\<rparr>\<rparr>
           | _ \<Rightarrow> None))"

definition ZERO_ADDRESS :: string where
  "ZERO_ADDRESS = ''0x0000000000000000000000000000000000000000''"

definition getTransferType :: "string \<Rightarrow> string \<Rightarrow> string" where
  "getTransferType from to =
     (if from = ZERO_ADDRESS then ''mint'' else if to = ZERO_ADDRESS then ''burn'' else ''transfer'')"

text \<open>The log lines of \<open>processERC20Transfer\<close>, before it updates the contract metadata.\<close>

definition transferLogs :: "ERC20TransferData \<Rightarrow> log_entry list" where
  "transferLogs td =
     [if td_isLargeTransfer td then (Warn, ''WHALE ALERT'')
      else if ci_priority (td_contractInfo td) = ''high'' then (Log, ''HIGH PRIORITY'')
      else (Log, ''Transfer'')] @
     (if td_from td = ZERO_ADDRESS then [(Log, ''MINT'')]
      else if td_to td = ZERO_ADDRESS then [(Log, ''BURN'')]
      else [])"

text \<open>
  \<open>updateContractMetadata\<close>. Call sites: 1 \<open>findByAddress\<close>; for a new contract 2
  \<open>saveERC20Data\<close> and 3 \<open>updateContract\<close>; for a known one 2 and 3 inside
  \<open>updateLastProcessedBlock\<close>, 4 and 5 inside \<open>setFirstSeenBlock\<close>, 6 \<open>updateContract\<close>.
  An error thrown at any of them is caught and logged.
\<close>

definition orZero :: "nat option \<Rightarrow> nat" where
  "orZero x = (case x of None \<Rightarrow> 0 | Some n \<Rightarrow> n)"

definition updateContractMetadata_body ::
  "(nat \<Rightarrow> nat option) \<Rightarrow> BlockchainEvent \<Rightarrow> ERC20TransferData \<Rightarrow> (cd_store, unit) store_op" where
  "updateContractMetadata_body fault ev td =
     (let addr = contractAddress ev; cid = chainId ev; b = blockNumber ev;
          info = td_contractInfo td
      in bindOp (findByAddress fault 1 addr cid) (\<lambda>found.
           case found of
             None \<Rightarrow>
               bindOp (saveERC20Data fault 2 addr cid (ci_name info) (ci_symbol info)
                         (ci_decimals info) b) (\<lambda>contractData.
               bindOp (updateContract fault 3 addr cid
                         (\<lambda>d. d\<lparr>lastProcessedBlock := Some b,
                                 cd_metadata := (cd_metadata contractData)
                                   \<lparr>lastBlock := Some b, transferCount := Some 1,
                                    largeTransferCount :=
                                      Some (if td_isLargeTransfer td then 1 else 0),
                                    lastTransferTimestamp := Some (timestamp ev),
                                    m_isStablecoin := Some (ci_isStablecoin info),
                                    m_priority := Some (ci_priority info)\<rparr>\<rparr>)) (\<lambda>_.
               returnOp ()))
           | Some contractData \<Rightarrow>
               bindOp (updateLastProcessedBlock fault 2 3 addr cid b) (\<lambda>_.
               bindOp (if orZero (firstSeenBlock contractData) = 0
                       then setFirstSeenBlock fault 4 5 addr cid b
                       else returnOp None) (\<lambda>_.
               bindOp (updateContract fault 6 addr cid
                         (\<lambda>d. d\<lparr>cd_metadata := (cd_metadata contractData)
                                   \<lparr>lastBlock := Some b,
                                    transferCount :=
                                      Some (orZero (transferCount (cd_metadata contractData)) + 1),
                                    largeTransferCount :=
                                      Some (orZero (largeTransferCount (cd_metadata contractData))
                                            + (if td_isLargeTransfer td then 1 else 0)),
                                    lastTransferTimestamp := Some (timestamp ev)\<rparr>\<rparr>)) (\<lambda>_.
               returnOp ())))))"

definition updateContractMetadata ::
  "(nat \<Rightarrow> nat option) \<Rightarrow> BlockchainEvent \<Rightarrow> ERC20TransferData \<Rightarrow> cd_store \<Rightarrow>
     log_entry list \<times> cd_store" where
  "updateContractMetadata fault ev td s =
     (case updateContractMetadata_body fault ev td s of
        (Inl code, s') \<Rightarrow> ([(LError, ''Error updating contract metadata'')], s')
      | (Inr _, s') \<Rightarrow> ([(Debug, ''Updated metadata'')], s'))"

subsection \<open>The event store and saveEvent\<close>

text \<open>
  The document \<open>saveEvent\<close> writes: the event, \<open>logIndex\<close> and \<open>transactionIndex\<close>
  lifted to the top level, and the transfer information. (\<open>tokenAmount\<close> is computed
  from \<open>valueFormatted\<close>, which the document keeps, and is left out.)
\<close>

record EventDoc =
  doc_event :: BlockchainEvent
  doc_logIndex :: "nat option"
  doc_transactionIndex :: "nat option"
  doc_transferInfo :: ERC20TransferData
  doc_transferType :: string

type_synonym event_store = "EventDoc list"

text \<open>The key of the unique index \<open>{transactionHash, logIndex, chainId}\<close>.\<close>

definition docKey :: "EventDoc \<Rightarrow> string \<times> nat option \<times> nat" where
  "docKey d = (transactionHash (doc_event d), doc_logIndex d, chainId (doc_event d))"

definition eventLogIndex :: "BlockchainEvent \<Rightarrow> nat option" where
  "eventLogIndex ev = (case data ev of None \<Rightarrow> None | Some d \<Rightarrow> logIndex d)"

definition eventTransactionIndex :: "BlockchainEvent \<Rightarrow> nat option" where
  "eventTransactionIndex ev = (case data ev of None \<Rightarrow> None | Some d \<Rightarrow> transactionIndex d)"

definition eventKey :: "BlockchainEvent \<Rightarrow> string \<times> nat option \<times> nat" where
  "eventKey ev = (transactionHash ev, eventLogIndex ev, chainId ev)"

definition findOne :: "event_store \<Rightarrow> string \<times> nat option \<times> nat \<Rightarrow> EventDoc option" where
  "findOne s k = find (\<lambda>d. docKey d = k) s"

text \<open>
  \<open>insertDoc\<close> is the store's own insert: the unique index refuses a document whose key
  is present, with error 11000.
\<close>

definition insertDoc :: "event_store \<Rightarrow> EventDoc \<Rightarrow> nat + event_store" where
  "insertDoc s d = (if docKey d \<in> set (map docKey s) then Inl 11000 else Inr (s @ [d]))"

text \<open>Documents other writers insert, each subject to the same index.\<close>

fun insertOthers :: "event_store \<Rightarrow> EventDoc list \<Rightarrow> event_store" where
  "insertOthers s [] = s"
| "insertOthers s (d # ds) =
     insertOthers (case insertDoc s d of Inl _ \<Rightarrow> s | Inr s' \<Rightarrow> s') ds"

definition enhancedEvent :: "BlockchainEvent \<Rightarrow> ERC20TransferData \<Rightarrow> EventDoc" where
  "enhancedEvent ev td =
     \<lparr>doc_event = ev, doc_logIndex = eventLogIndex ev,
      doc_transactionIndex = eventTransactionIndex ev,
      doc_transferInfo = td,
      doc_transferType = getTransferType (td_from td) (td_to td)\<rparr>"

text \<open>The \<open>catch\<close> block of \<open>saveEvent\<close>.\<close>

definition saveEvent_catch :: "nat \<Rightarrow> log_entry list" where
  "saveEvent_catch code =
     (if code = 11000 then [(Debug, ''Duplicate event detected'')]
      else [(LError, ''Error saving ERC20 event to database'')])"

text \<open>
  \<open>saveEvent\<close>. Call sites: 7 \<open>findOne\<close>, 8 \<open>save\<close>. Between the two awaits other
  writers may insert documents (\<open>racing\<close>); \<open>save\<close> then fails with the error injected
  at site 8, if any, or with the unique index's error.
\<close>

definition saveEvent ::
  "(nat \<Rightarrow> nat option) \<Rightarrow> EventDoc list \<Rightarrow> BlockchainEvent \<Rightarrow> ERC20TransferData \<Rightarrow>
     event_store \<Rightarrow> log_entry list \<times> event_store" where
  "saveEvent fault racing ev td s =
     (case fault 7 of
        Some code \<Rightarrow> (saveEvent_catch code, s)
      | None \<Rightarrow>
          (case findOne s (eventKey ev) of
             Some existing \<Rightarrow> ([(Debug, ''Event already exists'')], s)
           | None \<Rightarrow>
               (let s1 = insertOthers s racing
                in case fault 8 of
                     Some code \<Rightarrow> (saveEvent_catch code, s1)
                   | None \<Rightarrow>
                       (case insertDoc s1 (enhancedEvent ev td) of
                          Inl code \<Rightarrow> (saveEvent_catch code, s1)
                        | Inr s2 \<Rightarrow> ([(Debug, ''Saved Transfer event'')], s2)))))"

subsection \<open>handle\<close>

record world =
  configs :: "ContractConfig list"
  contracts :: cd_store
  events :: event_store

definition lowercase :: "string \<Rightarrow> string" where
  "lowercase s =
     map (\<lambda>c. case map_of (zip ''ABCDEFGHIJKLMNOPQRSTUVWXYZ'' ''abcdefghijklmnopqrstuvwxyz'') c of
                None \<Rightarrow> c | Some l \<Rightarrow> l) s"

text \<open>\<open>ContractConfigService.findByAddress\<close> (call site 0) lowercases the address.\<close>

definition findConfig :: "ContractConfig list \<Rightarrow> string \<Rightarrow> nat \<Rightarrow> ContractConfig option" where
  "findConfig cs addr cid = find (\<lambda>c. cc_address c = lowercase addr \<and> cc_chainId c = cid) cs"

text \<open>
  \<open>handle\<close>: an error of the configuration lookup is logged and thrown again (the
  handler rejects); everything after it catches its own errors. The result is the
  rejection, if any, the log and the world.
\<close>

definition handle_erc20 ::
  "(nat \<Rightarrow> nat option) \<Rightarrow> EventDoc list \<Rightarrow> BlockchainEvent \<Rightarrow> world \<Rightarrow>
     string option \<times> log_entry list \<times> world" where
  "handle_erc20 fault racing ev w =
     (case fault 0 of
        Some code \<Rightarrow> (Some ''Error'', [(LError, ''Error handling ERC20 Transfer event'')], w)
      | None \<Rightarrow>
          (case findConfig (configs w) (contractAddress ev) (chainId ev) of
             None \<Rightarrow> (None, [(Debug, ''No contract config found'')], w)
           | Some cfg \<Rightarrow>
               (case extractTransferData ev cfg of
                  None \<Rightarrow> (None, [(Debug, ''Invalid Transfer event data structure'')], w)
                | Some td \<Rightarrow>
                    (let (l1, cs) = updateContractMetadata fault ev td (contracts w);
                         (l2, es) = saveEvent fault racing ev td (events w)
                     in (None, transferLogs td @ l1 @ l2,
                         w\<lparr>contracts := cs, events := es\<rparr>)))))"

text \<open>A sequence of handler invocations, each with its own faults and racing writers.\<close>

fun handleAll ::
  "((nat \<Rightarrow> nat option) \<times> EventDoc list \<times> BlockchainEvent) list \<Rightarrow> world \<Rightarrow> world" where
  "handleAll [] w = w"
| "handleAll ((fault, racing, ev) # rest) w =
     handleAll rest (snd (snd (handle_erc20 fault racing ev w)))"

section \<open>Block-scan listener (evm-block-scan.listener.ts)\<close>

subsection \<open>Upstream\<close>

text \<open>
  What the listener reads from the chain and from the \<open>ethers\<close> library is a parameter
  of the model: within one tick the answer to a request is a function of the request.
  A request either rejects (\<open>Inl\<close>) or resolves (\<open>Inr\<close>).
  \<^item> \<open>getBlockNumber\<close>: the latest block.
  \<^item> \<open>newContract\<close>: \<open>new ethers.Contract(address, abi, provider)\<close>, which may throw.
  \<^item> \<open>queryFilter\<close>: the logs of one contract for one event name over a block range.
  \<^item> \<open>parseLog\<close>: \<open>Interface.parseLog\<close> on the topics and data of a log; \<open>None\<close> is
    \<open>null\<close>.
  \<^item> \<open>getBlock\<close>: the timestamp of a block; \<open>None\<close> is a \<open>null\<close> block.
  \<^item> \<open>getTransactionReceipt\<close>: \<open>None\<close> is \<open>null\<close>.
\<close>

datatype rpc_error = RpcError string

record EventLog =
  lg_blockNumber :: nat
  lg_transactionHash :: string
  lg_index :: nat
  lg_transactionIndex :: nat
  lg_topics :: "string list"
  lg_data :: string

text \<open>A decoded argument: an address or an unsigned integer (a \<open>bigint\<close>).\<close>

datatype arg = ArgAddress string | ArgUint int

record TransactionReceipt =
  rc_gasUsed :: int
  rc_status :: "nat option"

record Upstream =
  getBlockNumber :: "rpc_error + nat"
  newContract :: "ContractConfig \<Rightarrow> rpc_error option"
  queryFilter :: "ContractConfig \<Rightarrow> string \<Rightarrow> nat \<Rightarrow> nat \<Rightarrow> rpc_error + EventLog list"
  parseLog :: "ContractConfig \<Rightarrow> string list \<Rightarrow> string \<Rightarrow> rpc_error + arg list option"
  getBlock :: "nat \<Rightarrow> rpc_error + nat option"
  getTransactionReceipt :: "string \<Rightarrow> rpc_error + TransactionReceipt option"

subsection \<open>Batches\<close>

text \<open>
  \<open>chunks\<close>: slices of \<open>chunkSize\<close> elements. The sizes used are the constants 3, 2 and
  5; with size 0 the loop of the source would not end, and the model gives no chunk.
\<close>

function chunks :: "'a list \<Rightarrow> nat \<Rightarrow> 'a list list" where
  "chunks array chunkSize =
     (if array = [] \<or> chunkSize = 0 then []
      else take chunkSize array # chunks (drop chunkSize array) chunkSize)"
  by pat_completeness auto
termination
  by (relation "measure (\<lambda>(array, chunkSize). length array)") auto

declare chunks.simps [simp del]

text \<open>
  \<open>processBatches\<close>: the results of the batches, appended in order. The delay between
  two batches has no effect on the result.
\<close>

definition processBatches :: "'a list \<Rightarrow> ('a list \<Rightarrow> 'r list) \<Rightarrow> nat \<Rightarrow> 'r list" where
  "processBatches items processFn batchSize =
     foldl (\<lambda>results batch. results @ processFn batch) [] (chunks items batchSize)"

subsection \<open>Collecting the events of a block range\<close>

text \<open>The objects \<open>getAllContractEventsInRange\<close> returns.\<close>

record ContractEvent =
  ce_eventName :: string
  ce_blockNumber :: nat
  ce_transactionHash :: string
  ce_args :: "arg list"
  ce_timestamp :: nat
  ce_logIndex :: nat
  ce_transactionIndex :: nat
  ce_contractConfig :: ContractConfig

text \<open>
  \<open>getEventNamesFromConfig\<close>: the table \<open>knownEvents\<close> has the two hashes, an unknown
  hash maps to \<open>undefined\<close> and is filtered out.
\<close>

definition knownEvents :: "string \<Rightarrow> string option" where
  "knownEvents eventSig =
     (if eventSig = TRANSFER_EVENT_SIGNATURE then Some ''Transfer''
      else if eventSig = APPROVAL_EVENT_SIGNATURE then Some ''Approval''
      else None)"

definition getEventNamesFromConfig :: "ContractConfig \<Rightarrow> string list" where
  "getEventNamesFromConfig config = List.map_filter knownEvents (cc_events config)"

text \<open>\<open>decodeEventData\<close>: a failed or \<open>null\<close> decoding gives no arguments.\<close>

definition decodeEventData :: "Upstream \<Rightarrow> EventLog \<Rightarrow> ContractConfig \<Rightarrow> arg list" where
  "decodeEventData up event contractConfig =
     (case parseLog up contractConfig (lg_topics event) (lg_data event) of
        Inl err \<Rightarrow> []
      | Inr None \<Rightarrow> []
      | Inr (Some decoded) \<Rightarrow> decoded)"

definition toContractEvent :: "Upstream \<Rightarrow> ContractConfig \<Rightarrow> string \<Rightarrow> EventLog \<Rightarrow> ContractEvent" where
  "toContractEvent up config name event =
     \<lparr>ce_eventName = name,
      ce_blockNumber = lg_blockNumber event,
      ce_transactionHash = lg_transactionHash event,
      ce_args = decodeEventData up event config,
      ce_timestamp = 0,
      ce_logIndex = lg_index event,
      ce_transactionIndex = lg_transactionIndex event,
      ce_contractConfig = config\<rparr>"

text \<open>
  The callback for one event name: no filter of that name in the ABI gives no event, a
  failed query is caught and gives no event.
\<close>

definition queryEvents ::
  "Upstream \<Rightarrow> nat \<Rightarrow> nat \<Rightarrow> ContractConfig \<Rightarrow> string \<Rightarrow> ContractEvent list" where
  "queryEvents up fromBlock toBlock config name =
     (if name \<notin> set (cc_abi config) then []
      else (case queryFilter up config name fromBlock toBlock of
              Inl err \<Rightarrow> []
            | Inr found \<Rightarrow> map (toContractEvent up config name) found))"

text \<open>
  The callback for one contract: the event names in batches of 2; an error of the
  contract's construction is caught and gives no event.
\<close>

definition contractEvents ::
  "Upstream \<Rightarrow> nat \<Rightarrow> nat \<Rightarrow> ContractConfig \<Rightarrow> ContractEvent list" where
  "contractEvents up fromBlock toBlock config =
     (case newContract up config of
        Some err \<Rightarrow> []
      | None \<Rightarrow>
          processBatches (getEventNamesFromConfig config)
            (\<lambda>batchEventNames. concat (map (queryEvents up fromBlock toBlock config) batchEventNames))
            2)"

text \<open>
  The comparison function given to \<open>sort\<close>, and the sort: \<open>Array.prototype.sort\<close> is
  stable, as is the insertion sort here.
\<close>

definition compareEvents :: "ContractEvent \<Rightarrow> ContractEvent \<Rightarrow> int" where
  "compareEvents a b =
     (if ce_blockNumber a \<noteq> ce_blockNumber b
      then int (ce_blockNumber a) - int (ce_blockNumber b)
      else int (ce_logIndex a) - int (ce_logIndex b))"

fun insertEvent :: "ContractEvent \<Rightarrow> ContractEvent list \<Rightarrow> ContractEvent list" where
  "insertEvent e [] = [e]"
| "insertEvent e (x # xs) =
     (if compareEvents e x \<le> 0 then e # x # xs else x # insertEvent e xs)"

definition sortEvents :: "ContractEvent list \<Rightarrow> ContractEvent list" where
  "sortEvents allEvents = foldr insertEvent allEvents []"

text \<open>\<open>[...new Set(blockNumbers)]\<close>: the first occurrence of each block number.\<close>

definition uniqueBlocks :: "ContractEvent list \<Rightarrow> nat list" where
  "uniqueBlocks allEvents = rev (remdups (rev (map ce_blockNumber allEvents)))"

text \<open>\<open>block?.timestamp || 0\<close>, and 0 when the request fails.\<close>

definition blockTimestamp :: "Upstream \<Rightarrow> nat \<Rightarrow> nat" where
  "blockTimestamp up bn =
     (case getBlock up bn of
        Inl err \<Rightarrow> 0
      | Inr None \<Rightarrow> 0
      | Inr (Some t) \<Rightarrow> t)"

text \<open>The map \<open>blockTimestamps\<close>, filled in batches of 5 blocks.\<close>

definition blockTimestamps :: "Upstream \<Rightarrow> nat list \<Rightarrow> (nat \<rightharpoonup> nat)" where
  "blockTimestamps up blocks =
     foldl (\<lambda>m batchBlocks. foldl (\<lambda>m' b. m'(b \<mapsto> blockTimestamp up b)) m batchBlocks)
       Map.empty (chunks blocks 5)"

text \<open>
  \<open>getAllContractEventsInRange\<close>: the contracts in batches of 3, the callback appends
  the events of its batch to \<open>allEvents\<close>; then the sort and the timestamps,
  \<open>(blockTimestamps.get(blockNumber) || 0) * 1000\<close>.
\<close>

definition collectEvents ::
  "Upstream \<Rightarrow> ContractConfig list \<Rightarrow> nat \<Rightarrow> nat \<Rightarrow> ContractEvent list" where
  "collectEvents up contractConfigs fromBlock toBlock =
     foldl (\<lambda>allEvents batchConfigs.
              allEvents @ concat (map (contractEvents up fromBlock toBlock) batchConfigs))
       [] (chunks contractConfigs 3)"

definition getAllContractEventsInRange ::
  "Upstream \<Rightarrow> ContractConfig list \<Rightarrow> nat \<Rightarrow> nat \<Rightarrow> ContractEvent list" where
  "getAllContractEventsInRange up contractConfigs fromBlock toBlock =
     (let allEvents = sortEvents (collectEvents up contractConfigs fromBlock toBlock);
          timestamps = blockTimestamps up (uniqueBlocks allEvents)
      in map (\<lambda>event. event\<lparr>ce_timestamp :=
                (case timestamps (ce_blockNumber event) of None \<Rightarrow> 0 | Some t \<Rightarrow> t) * 1000\<rparr>)
           allEvents)"

subsection \<open>Processing one event\<close>

definition getEventSignature :: "string \<Rightarrow> string" where
  "getEventSignature name =
     (if name = ''Transfer'' then TRANSFER_EVENT_SIGNATURE
      else if name = ''Approval'' then APPROVAL_EVENT_SIGNATURE
      else [])"

text \<open>\<open>toString\<close> of a decoded argument.\<close>

definition argString :: "arg \<Rightarrow> string" where
  "argString a = (case a of ArgAddress s \<Rightarrow> s | ArgUint v \<Rightarrow> amount_toString (AmountBigInt v))"

text \<open>
  The listener's own \<open>formatTokenValue\<close> and \<open>isLargeTransfer\<close> read the decimals and
  the stablecoin flag from the contract configuration and are otherwise the functions
  of \<open>evm-constants.ts\<close>.
\<close>

definition formatTokenValue :: "string \<Rightarrow> ContractConfig \<Rightarrow> string" where
  "formatTokenValue v config = formatTokenAmount (AmountString v) (configDecimals config)"

definition isLargeTransfer_listener :: "string \<Rightarrow> ContractConfig \<Rightarrow> bool" where
  "isLargeTransfer_listener v config =
     isLargeTransfer (AmountString v) (configDecimals config) (configIsStablecoin config)"

definition formatEventArgs :: "string \<Rightarrow> arg list \<Rightarrow> ContractConfig \<Rightarrow> event_args" where
  "formatEventArgs name vals config =
     (if name = ''Transfer'' \<and> 3 \<le> length vals
      then TransferArgs (argString (vals ! 0)) (argString (vals ! 1)) (argString (vals ! 2))
             (formatTokenValue (argString (vals ! 2)) config)
             (isLargeTransfer_listener (argString (vals ! 2)) config)
      else if name = ''Approval'' \<and> 3 \<le> length vals
      then ApprovalArgs (argString (vals ! 0)) (argString (vals ! 1)) (argString (vals ! 2))
             (formatTokenValue (argString (vals ! 2)) config)
      else RawArgs (map argString vals))"

text \<open>
  \<open>processContractEvent\<close>: the event handed to \<open>dispatchEvent\<close>, or \<open>None\<close> when the
  receipt is \<open>null\<close> (a warning, then \<open>return\<close>) or its request fails (caught and
  logged). Nothing else is done with the event in either case.
\<close>

definition processContractEvent :: "nat \<Rightarrow> Upstream \<Rightarrow> ContractEvent \<Rightarrow> BlockchainEvent option" where
  "processContractEvent cid up event =
     (case getTransactionReceipt up (ce_transactionHash event) of
        Inl err \<Rightarrow> None
      | Inr None \<Rightarrow> None
      | Inr (Some receipt) \<Rightarrow>
          Some \<lparr>chainId = cid,
                blockNumber = ce_blockNumber event,
                transactionHash = ce_transactionHash event,
                eventType = ''contract_log'',
                contractAddress = cc_address (ce_contractConfig event),
                data = Some \<lparr>topics = Some [],
                             logIndex = Some (ce_logIndex event),
                             transactionIndex = Some (ce_transactionIndex event),
                             gasUsed = amount_toString (AmountBigInt (rc_gasUsed receipt)),
                             txStatus = rc_status receipt,
                             eventName = ce_eventName event,
                             signature = getEventSignature (ce_eventName event),
                             args = Some (formatEventArgs (ce_eventName event) (ce_args event)
                                            (ce_contractConfig event))\<rparr>,
                timestamp = ce_timestamp event\<rparr>)"

subsection \<open>A tick\<close>

text \<open>
  The state of the listener that a tick reads and writes. \<open>_isRunning\<close> is written by
  \<open>stop()\<close>, which may be called while the tick is suspended in an \<open>await\<close>: the tick
  takes as a parameter \<open>running i\<close>, the value \<open>isRunning()\<close> returns at the head of
  the \<open>i\<close>-th iteration of the event loop.
\<close>

record EvmBlockScanListener =
  ls_chainId :: nat
  ls_lastProcessedBlock :: nat
  ls_blocksPerScan :: nat
  ls_contractConfigs :: "ContractConfig list"

text \<open>The loop \<open>for (const event of allEvents)\<close>: the events dispatched, in order.\<close>

fun processEvents ::
  "nat \<Rightarrow> Upstream \<Rightarrow> (nat \<Rightarrow> bool) \<Rightarrow> nat \<Rightarrow> ContractEvent list \<Rightarrow> BlockchainEvent list" where
  "processEvents cid up running i [] = []"
| "processEvents cid up running i (event # rest) =
     (if \<not> running i then []
      else (case processContractEvent cid up event of None \<Rightarrow> [] | Some ev \<Rightarrow> [ev])
           @ processEvents cid up running (Suc i) rest)"

definition processBlockRangeWithBatching ::
  "EvmBlockScanListener \<Rightarrow> Upstream \<Rightarrow> (nat \<Rightarrow> bool) \<Rightarrow> nat \<Rightarrow> nat \<Rightarrow> BlockchainEvent list" where
  "processBlockRangeWithBatching st up running fromBlock toBlock =
     (if ls_contractConfigs st = [] then []
      else processEvents (ls_chainId st) up running 0
             (getAllContractEventsInRange up (ls_contractConfigs st) fromBlock toBlock))"

text \<open>
  What a tick does to the rest of the system, in the order it does it: the calls of
  \<open>dispatchEvent\<close> and the assignment to \<open>lastProcessedBlock\<close>.
\<close>

datatype effect = Enqueue BlockchainEvent | SetCursor nat

text \<open>
  \<open>scanForNewBlocks\<close>: a failed \<open>getBlockNumber\<close> is caught, no new block returns
  early; otherwise the range is processed and the cursor is assigned.
\<close>

definition scanForNewBlocks ::
  "Upstream \<Rightarrow> (nat \<Rightarrow> bool) \<Rightarrow> EvmBlockScanListener \<Rightarrow> effect list \<times> EvmBlockScanListener" where
  "scanForNewBlocks up running st =
     (case getBlockNumber up of
        Inl err \<Rightarrow> ([], st)
      | Inr latestBlock \<Rightarrow>
          if latestBlock \<le> ls_lastProcessedBlock st then ([], st)
          else (let startBlock = ls_lastProcessedBlock st + 1;
                    endBlock = min latestBlock (startBlock + ls_blocksPerScan st - 1)
                in (map Enqueue (processBlockRangeWithBatching st up running startBlock endBlock)
                      @ [SetCursor endBlock],
                    st\<lparr>ls_lastProcessedBlock := endBlock\<rparr>)))"

text \<open>The events a list of effects enqueues.\<close>

definition enqueuedBy :: "effect list \<Rightarrow> BlockchainEvent list" where
  "enqueuedBy fx = concat (map (\<lambda>e. case e of Enqueue ev \<Rightarrow> [ev] | SetCursor n \<Rightarrow> []) fx)"

subsection \<open>The claim's words\<close>

text \<open>
  The logs upstream returns for the monitored filters over a range, taken directly:
  for every monitored contract and every event name it monitors (a known hash of its
  \<open>events\<close> whose event the ABI declares), the logs of the query. \<open>spec_eventOfLog\<close> is
  the event that stands for a log: its fields, the timestamp of its block and its
  receipt.
\<close>

definition spec_matchingLogs ::
  "Upstream \<Rightarrow> ContractConfig list \<Rightarrow> nat \<Rightarrow> nat \<Rightarrow> (ContractConfig \<times> string \<times> EventLog) list" where
  "spec_matchingLogs up contractConfigs a b =
     concat (map (\<lambda>config.
       concat (map (\<lambda>name.
         (case queryFilter up config name a b of
            Inl err \<Rightarrow> []
          | Inr found \<Rightarrow> map (\<lambda>event. (config, name, event)) found))
         (filter (\<lambda>name. name \<in> set (cc_abi config) \<and> newContract up config = None)
            (getEventNamesFromConfig config))))
       contractConfigs)"

definition spec_eventOfLog ::
  "nat \<Rightarrow> Upstream \<Rightarrow> ContractConfig \<times> string \<times> EventLog \<Rightarrow> BlockchainEvent option" where
  "spec_eventOfLog cid up x =
     (case x of (config, name, event) \<Rightarrow>
        processContractEvent cid up
          ((toContractEvent up config name event)
             \<lparr>ce_timestamp := blockTimestamp up (lg_blockNumber event) * 1000\<rparr>))"

text \<open>Ascending \<open>(blockNumber, logIndex)\<close> order of two events.\<close>

definition ascending :: "BlockchainEvent \<Rightarrow> BlockchainEvent \<Rightarrow> bool" where
  "ascending x y =
     (blockNumber x < blockNumber y \<or>
      (blockNumber x = blockNumber y \<and>
       (case (eventLogIndex x, eventLogIndex y) of
          (Some i, Some j) \<Rightarrow> i \<le> j
        | _ \<Rightarrow> False)))"

section \<open>Invariants and sample data used in the proofs\<close>


text \<open>
  In a run, whatever the interleaving, the log and the shared state are those of
  \<open>processEvent\<close> applied to the events handed over so far, one after the other.
\<close>

definition sequential :: "'w IEventHandler list \<Rightarrow> 'w \<Rightarrow> 'w run \<Rightarrow> bool" where
  "sequential hs w r =
     (handlers (disp r) = hs \<and>
      logs r = concat (map snd (fst (drainLoop hs (handled r) w))) \<and>
      world r = snd (drainLoop hs (handled r) w))"

text \<open>Sample data for the concrete instances below.\<close>

definition sampleData :: EventData where
  "sampleData =
     \<lparr>topics = Some [TRANSFER_EVENT_SIGNATURE], logIndex = Some 0, transactionIndex = Some 0,
      gasUsed = ''21000'', txStatus = Some 1, eventName = ''Transfer'',
      signature = TRANSFER_EVENT_SIGNATURE, args = None\<rparr>"

definition sampleEvent :: "nat \<Rightarrow> BlockchainEvent" where
  "sampleEvent n =
     \<lparr>chainId = 1, blockNumber = n, transactionHash = ''0xtx'', eventType = ''contract_log'',
      contractAddress = ''0xaaa'', data = Some sampleData, timestamp = 0\<rparr>"

definition handlerA :: "nat IEventHandler" where
  "handlerA = \<lparr>handlerName = ''A'', canHandle = (\<lambda>ev. True),
               handle = (\<lambda>ev w. (Some ''boom'', w))\<rparr>"

definition handlerB :: "nat IEventHandler" where
  "handlerB = \<lparr>handlerName = ''B'', canHandle = (\<lambda>ev. True),
               handle = (\<lambda>ev w. (None, Suc w))\<rparr>"


text \<open>
  The value of \<open>lastProcessedBlock\<close> of a key in the contract data store, an unset field
  or a missing document counting as 0; and store operations that never lower it.
\<close>

definition lpbOf :: "cd_store \<Rightarrow> string \<times> nat \<Rightarrow> nat" where
  "lpbOf s k = (case s k of None \<Rightarrow> 0 | Some c \<Rightarrow> orZero (lastProcessedBlock c))"

definition mono_op :: "(cd_store, 'a) store_op \<Rightarrow> bool" where
  "mono_op m = (\<forall>s k. lpbOf s k \<le> lpbOf (snd (m s)) k)"


definition noFault :: "nat \<Rightarrow> nat option" where
  "noFault = (\<lambda>site. None)"

definition faultAt :: "nat \<Rightarrow> nat \<Rightarrow> nat \<Rightarrow> nat option" where
  "faultAt site code = (\<lambda>i. if i = site then Some code else None)"

definition transferEvent :: "nat \<Rightarrow> BlockchainEvent" where
  "transferEvent n =
     (sampleEvent n)\<lparr>data := Some (sampleData\<lparr>args :=
        Some (TransferArgs ''0x01'' ''0x02'' ''250000000000'' [] False)\<rparr>)\<rparr>"

definition sampleConfig :: ContractConfig where
  "sampleConfig =
     \<lparr>cc_address = ''0xaaa'', cc_chainId = 1, cc_name = ''Tether'', cc_symbol = ''USDT'',
      cc_type = ''erc20'', cc_events = [TRANSFER_EVENT_SIGNATURE], cc_abi = [''Transfer''],
      cc_enabled = True,
      cc_metadata = Some \<lparr>md_decimals = Some 6, md_isStablecoin = Some True,
                              md_priority = None\<rparr>\<rparr>"

definition sampleTransfer :: ERC20TransferData where
  "sampleTransfer =
     \<lparr>td_from = ''0x01'', td_to = ''0x02'', td_value = ''250000000000'',
      td_valueFormatted = formatTokenAmount (AmountString ''250000000000'') 6,
      td_isLargeTransfer = isLargeTransfer (AmountString ''250000000000'') 6 True,
      td_contractInfo = \<lparr>ci_name = ''Tether'', ci_symbol = ''USDT'', ci_decimals = 6,
                         ci_isStablecoin = True, ci_priority = ''medium''\<rparr>\<rparr>"

definition sampleContractData :: ContractData where
  "sampleContractData =
     \<lparr>cd_contractAddress = ''0xaaa'', cd_chainId = 1, contractType = ''erc20'',
      collectionKey = ''erc20_1'',
      cd_metadata = \<lparr>tokenType = Some ''ERC20'', lastBlock = Some 100,
                     transferCount = Some 7, largeTransferCount = Some 0,
                     lastTransferTimestamp = Some 0, m_isStablecoin = Some True,
                     m_priority = Some ''medium''\<rparr>,
      cd_name = Some ''Tether'', cd_symbol = Some ''USDT'', cd_decimals = Some 6,
      totalSupply = Some ''0'', isActive = True, lastProcessedBlock = Some 100,
      firstSeenBlock = Some 90, startFromBlock = Some 90\<rparr>"

definition sampleWorld :: world where
  "sampleWorld =
     \<lparr>configs = [sampleConfig],
      contracts = [(''0xaaa'', 1) \<mapsto> sampleContractData],
      events = []\<rparr>"

text \<open>The characters a rendered number is made of, besides the separators.\<close>

definition isDigit :: "char \<Rightarrow> bool" where
  "isDigit c = (c \<in> set ''0123456789'')"


text \<open>
  Sample data for the listener: three Transfer logs of the sample contract in blocks 11
  and 12, which upstream returns out of order; the receipts are a parameter.
\<close>

definition alwaysRunning :: "nat \<Rightarrow> bool" where
  "alwaysRunning i = True"

definition stoppedAt :: "nat \<Rightarrow> nat \<Rightarrow> bool" where
  "stoppedAt k i = (i < k)"

definition sampleLog :: "nat \<Rightarrow> nat \<Rightarrow> string \<Rightarrow> EventLog" where
  "sampleLog b i h =
     \<lparr>lg_blockNumber = b, lg_transactionHash = h, lg_index = i, lg_transactionIndex = 0,
      lg_topics = [TRANSFER_EVENT_SIGNATURE], lg_data = ''0x''\<rparr>"

definition sampleReceipt :: TransactionReceipt where
  "sampleReceipt = \<lparr>rc_gasUsed = 21000, rc_status = Some 1\<rparr>"

definition receiptsFound :: "string \<Rightarrow> rpc_error + TransactionReceipt option" where
  "receiptsFound h = Inr (Some sampleReceipt)"

definition receiptMissing :: "string \<Rightarrow> rpc_error + TransactionReceipt option" where
  "receiptMissing h = (if h = ''0xa'' then Inr None else Inr (Some sampleReceipt))"

definition sampleUpstream ::
  "(string \<Rightarrow> rpc_error + TransactionReceipt option) \<Rightarrow> Upstream" where
  "sampleUpstream receipts =
     \<lparr>getBlockNumber = Inr 12,
      newContract = (\<lambda>c. None),
      queryFilter = (\<lambda>c n a b.
        Inr (filter (\<lambda>l. a \<le> lg_blockNumber l \<and> lg_blockNumber l \<le> b)
               [sampleLog 11 1 ''0xb'', sampleLog 11 0 ''0xa'', sampleLog 12 0 ''0xc''])),
      parseLog = (\<lambda>c t d. Inr None),
      getBlock = (\<lambda>b. Inr (Some (1700000000 + b))),
      getTransactionReceipt = receipts\<rparr>"

definition sampleListener :: EvmBlockScanListener where
  "sampleListener =
     \<lparr>ls_chainId = 1, ls_lastProcessedBlock = 10, ls_blocksPerScan = 50,
      ls_contractConfigs = [sampleConfig]\<rparr>"

text \<open>What identifies the log an event stands for.\<close>

definition logOf :: "BlockchainEvent \<Rightarrow> nat \<times> nat option \<times> string" where
  "logOf ev = (blockNumber ev, eventLogIndex ev, transactionHash ev)"

text \<open>An effect of a tick, with the event replaced by the log it stands for.\<close>

definition effectKey :: "effect \<Rightarrow> (nat \<times> nat option \<times> string) + nat" where
  "effectKey fx = (case fx of Enqueue ev \<Rightarrow> Inl (logOf ev) | SetCursor n \<Rightarrow> Inr n)"

text \<open>Whether the request of a receipt resolves to a receipt.\<close>

definition receiptFound :: "Upstream \<Rightarrow> string \<Rightarrow> bool" where
  "receiptFound up h = (case getTransactionReceipt up h of Inr (Some r) \<Rightarrow> True | _ \<Rightarrow> False)"


section \<open>Properties of the dispatcher\<close>

lemma loopHead_handlers: "handlers (disp (loopHead r)) = handlers (disp r)"
  by (simp add: loopHead_def split: list.splits prod.splits)

lemma step_handlers: "handlers (disp (step r a)) = handlers (disp r)"
  by (cases a) (simp_all add: Let_def loopHead_handlers)

lemma foldl_step_handlers: "handlers (disp (foldl step r acts)) = handlers (disp r)"
  by (induction acts arbitrary: r) (simp_all add: step_handlers)











subsection \<open>Handler failures\<close>

lemma runHandler_name: "snd (fst (runHandler ev h w)) = handlerName h"
  by (simp add: runHandler_def split: prod.splits option.splits)

lemma runHandlers_names: "map snd (fst (runHandlers ev hs w)) = map handlerName hs"
  by (induction hs arbitrary: w) (simp_all add: Let_def split_beta runHandler_name)

lemma runHandlers_append:
  "runHandlers ev (hs1 @ hs2) w =
     (let (l1, w1) = runHandlers ev hs1 w; (l2, w2) = runHandlers ev hs2 w1
      in (l1 @ l2, w2))"
  by (induction hs1 arbitrary: w) (simp_all add: Let_def split_beta)

lemma drainLoop_events: "map fst (fst (drainLoop hs q w)) = q"
  by (induction q arbitrary: w) (simp_all add: Let_def split_beta)

lemma runHandler_world: "snd (runHandler ev h w) = snd (handle h ev w)"
  by (simp add: runHandler_def split: prod.splits option.splits)

lemma runHandler_entry:
  "fst (runHandler ev h w)
     = (if fst (handle h ev w) = None then Debug else LError, handlerName h)"
  by (simp add: runHandler_def split: prod.splits option.splits)

lemma runHandlers_world:
  "snd (runHandlers ev hs w) = foldl (\<lambda>w' h. snd (handle h ev w')) w hs"
  by (induction hs arbitrary: w) (simp_all add: Let_def split_beta runHandler_world)

lemma upt_shift: "[0..<Suc n] = 0 # map Suc [0..<n]"
  by (simp add: upt_conv_Cons map_Suc_upt del: upt_Suc)

lemma runHandlers_log:
  "fst (runHandlers ev hs w)
     = map (\<lambda>i. (if fst (handle (hs ! i) ev (foldl (\<lambda>w' h. snd (handle h ev w')) w (take i hs)))
                      = None then Debug else LError,
                  handlerName (hs ! i)))
         [0..<length hs]"
proof (induction hs arbitrary: w)
  case Nil
  then show ?case by simp
next
  case (Cons h hs)
  show ?case
    by (simp only: length_Cons upt_shift)
      (simp add: Let_def split_beta runHandler_entry runHandler_world Cons.IH comp_def)
qed

lemma processEvent_world:
  "snd (processEvent hs ev w)
     = foldl (\<lambda>w' h. snd (handle h ev w')) w (filter (\<lambda>h. canHandle h ev) hs)"
  by (simp add: processEvent_def Let_def runHandlers_world)

lemma processEvent_log:
  "filter (\<lambda>h. canHandle h ev) hs \<noteq> [] \<Longrightarrow>
   fst (processEvent hs ev w) = fst (runHandlers ev (filter (\<lambda>h. canHandle h ev) hs) w)"
  by (simp add: processEvent_def Let_def)

lemma drainLoop_world:
  "snd (drainLoop hs q w) = foldl (\<lambda>w' ev. snd (processEvent hs ev w')) w q"
  by (induction q arbitrary: w) (simp_all add: Let_def split_beta)

lemma drainLoop_trace:
  "fst (drainLoop hs q w)
     = map (\<lambda>j. (q ! j, fst (processEvent hs (q ! j)
                            (foldl (\<lambda>w' ev. snd (processEvent hs ev w')) w (take j q)))))
         [0..<length q]"
proof (induction q arbitrary: w)
  case Nil
  then show ?case by simp
next
  case (Cons ev q)
  show ?case
    by (simp only: length_Cons upt_shift)
      (simp add: Let_def split_beta Cons.IH comp_def)
qed

lemma drainLoop_snoc:
  "drainLoop hs (q @ [ev]) w =
     (fst (drainLoop hs q w) @ [(ev, fst (processEvent hs ev (snd (drainLoop hs q w))))],
      snd (processEvent hs ev (snd (drainLoop hs q w))))"
  by (induction q arbitrary: w) (simp_all add: Let_def split_beta)

lemma loopHead_sequential: "sequential hs w r \<Longrightarrow> sequential hs w (loopHead r)"
  by (cases "eventQueue (disp r)")
    (simp_all add: sequential_def loopHead_def Let_def split_beta drainLoop_snoc)

lemma step_sequential: "sequential hs w r \<Longrightarrow> sequential hs w (step r a)"
proof (cases a)
  case (Dispatch ev)
  assume s: "sequential hs w r"
  let ?r1 = "r\<lparr>disp := (disp r)\<lparr>eventQueue := eventQueue (disp r) @ [ev]\<rparr>,
                enqueued := enqueued r @ [ev]\<rparr>"
  from s have s1: "sequential hs w ?r1" by (simp add: sequential_def)
  then have "sequential hs w (?r1\<lparr>disp := (disp ?r1)\<lparr>isProcessing := True\<rparr>\<rparr>)"
    by (simp add: sequential_def)
  then have "sequential hs w (loopHead (?r1\<lparr>disp := (disp ?r1)\<lparr>isProcessing := True\<rparr>\<rparr>))"
    by (rule loopHead_sequential)
  with s1 Dispatch show ?thesis by (simp add: Let_def)
next
  case (Settled i)
  assume s: "sequential hs w r"
  then have "sequential hs w (r\<lparr>drains := take i (drains r) @ drop (Suc i) (drains r)\<rparr>)"
    by (simp add: sequential_def)
  then have "sequential hs w (loopHead (r\<lparr>drains := take i (drains r) @ drop (Suc i) (drains r)\<rparr>))"
    by (rule loopHead_sequential)
  with s Settled show ?thesis by simp
qed

lemma foldl_step_sequential: "sequential hs w r \<Longrightarrow> sequential hs w (foldl step r acts)"
  by (induction acts arbitrary: r) (simp_all add: step_sequential)

lemma runActions_sequential: "sequential hs w (runActions hs w acts)"
  unfolding runActions_def
  by (rule foldl_step_sequential) (simp add: sequential_def initial_def)

text \<open>
  C8. A handler whose \<open>handle\<close> rejects gets an error-level log entry and nothing else
  happens. For an event and the handlers \<open>hs\<close> registered:
  \<^item> \<open>processEvent\<close> applies the effect of every handler of \<open>filter canHandle\<close>, in
    registration order, whether handlers before it rejected or not; with at least one
    eligible handler its log has exactly one entry per eligible handler, in that
    order, at error level exactly when that handler rejected in the state it was run
    in, at debug level otherwise; with none it is the one warning;
  \<^item> run among the eligible handlers of an event (\<open>hs1\<close> before it, \<open>hs2\<close> after it), the
    handlers after a handler are run all the same, from the state it left;
  \<^item> the drain loop hands every queued event to \<open>processEvent\<close>, in order, each from
    the state the events before it left, and leaves the queue empty, the flag reset
    and the handler list as it was;
  \<^item> in every state a run can reach, whatever the interleaving, the handler list is the
    registered one, and the log and the shared state are those of \<open>processEvent\<close>
    applied to the events handed over so far, one after the other.
\<close>

theorem handler_failure_is_swallowed:
  "(fst (handle h ev w) \<noteq> None \<longrightarrow> fst (runHandler ev h w) = (LError, handlerName h)) \<and>
   runHandlers ev (hs1 @ h # hs2) w =
     (let (l1, w1) = runHandlers ev hs1 w;
          (l, w2) = runHandler ev h w1;
          (l2, w3) = runHandlers ev hs2 w2
      in (l1 @ l # l2, w3)) \<and>
   map snd (fst (runHandlers ev hs w)) = map handlerName hs \<and>
   (let eligible = filter (\<lambda>h. canHandle h ev) hs;
        effect = (\<lambda>w' h. snd (handle h ev w'))
    in snd (processEvent hs ev w) = foldl effect w eligible \<and>
       (eligible \<noteq> [] \<longrightarrow>
          fst (processEvent hs ev w)
            = map (\<lambda>i. (if fst (handle (eligible ! i) ev (foldl effect w (take i eligible))) = None
                         then Debug else LError,
                         handlerName (eligible ! i)))
                [0..<length eligible]) \<and>
       (eligible = [] \<longrightarrow> fst (processEvent hs ev w) = [(Warn, ''No handlers found'')])) \<and>
   map fst (fst (drainLoop hs q w)) = q \<and>
   (let after = (\<lambda>w' e. snd (processEvent hs e w'))
    in fst (drainLoop hs q w)
         = map (\<lambda>j. (q ! j, fst (processEvent hs (q ! j) (foldl after w (take j q)))))
             [0..<length q] \<and>
       snd (drainLoop hs q w) = foldl after w q) \<and>
   (\<not> isProcessing d \<longrightarrow>
      (case processEventQueue d w of
         (tr, d', w') \<Rightarrow>
           tr = fst (drainLoop (handlers d) (eventQueue d) w) \<and>
           w' = snd (drainLoop (handlers d) (eventQueue d) w) \<and>
           map fst tr = eventQueue d \<and> eventQueue d' = [] \<and> \<not> isProcessing d' \<and>
           handlers d' = handlers d \<and> getHandlerCount d' = getHandlerCount d)) \<and>
   handlers (disp (runActions hs w acts)) = hs \<and>
   logs (runActions hs w acts)
     = concat (map snd (fst (drainLoop hs (handled (runActions hs w acts)) w))) \<and>
   world (runActions hs w acts) = snd (drainLoop hs (handled (runActions hs w acts)) w)"
proof -
  have a: "fst (handle h ev w) \<noteq> None \<longrightarrow> fst (runHandler ev h w) = (LError, handlerName h)"
    by (auto simp: runHandler_def split: prod.splits option.splits)
  have b: "runHandlers ev (hs1 @ h # hs2) w =
     (let (l1, w1) = runHandlers ev hs1 w;
          (l, w2) = runHandler ev h w1;
          (l2, w3) = runHandlers ev hs2 w2
      in (l1 @ l # l2, w3))"
    by (simp add: runHandlers_append Let_def split: prod.splits)
  have p: "let eligible = filter (\<lambda>h. canHandle h ev) hs;
        effect = (\<lambda>w' h. snd (handle h ev w'))
    in snd (processEvent hs ev w) = foldl effect w eligible \<and>
       (eligible \<noteq> [] \<longrightarrow>
          fst (processEvent hs ev w)
            = map (\<lambda>i. (if fst (handle (eligible ! i) ev (foldl effect w (take i eligible))) = None
                         then Debug else LError,
                         handlerName (eligible ! i)))
                [0..<length eligible]) \<and>
       (eligible = [] \<longrightarrow> fst (processEvent hs ev w) = [(Warn, ''No handlers found'')])"
    unfolding Let_def
  proof (intro conjI impI)
    show "snd (processEvent hs ev w)
        = foldl (\<lambda>w' h. snd (handle h ev w')) w (filter (\<lambda>h. canHandle h ev) hs)"
      by (rule processEvent_world)
  next
    assume ne: "filter (\<lambda>h. canHandle h ev) hs \<noteq> []"
    show "fst (processEvent hs ev w)
        = map (\<lambda>i. (if fst (handle (filter (\<lambda>h. canHandle h ev) hs ! i) ev
                            (foldl (\<lambda>w' h. snd (handle h ev w')) w
                               (take i (filter (\<lambda>h. canHandle h ev) hs)))) = None
                     then Debug else LError,
                     handlerName (filter (\<lambda>h. canHandle h ev) hs ! i)))
            [0..<length (filter (\<lambda>h. canHandle h ev) hs)]"
      unfolding processEvent_log [OF ne] by (rule runHandlers_log)
  next
    assume "filter (\<lambda>h. canHandle h ev) hs = []"
    then show "fst (processEvent hs ev w) = [(Warn, ''No handlers found'')]"
      by (simp add: processEvent_def)
  qed
  have t: "let after = (\<lambda>w' e. snd (processEvent hs e w'))
    in fst (drainLoop hs q w)
         = map (\<lambda>j. (q ! j, fst (processEvent hs (q ! j) (foldl after w (take j q)))))
             [0..<length q] \<and>
       snd (drainLoop hs q w) = foldl after w q"
    unfolding Let_def using drainLoop_trace [of hs q w] drainLoop_world [of hs q w] by blast
  have c: "\<not> isProcessing d \<longrightarrow>
      (case processEventQueue d w of
         (tr, d', w') \<Rightarrow>
           tr = fst (drainLoop (handlers d) (eventQueue d) w) \<and>
           w' = snd (drainLoop (handlers d) (eventQueue d) w) \<and>
           map fst tr = eventQueue d \<and> eventQueue d' = [] \<and> \<not> isProcessing d' \<and>
           handlers d' = handlers d \<and> getHandlerCount d' = getHandlerCount d)"
    using drainLoop_events [of "handlers d" "eventQueue d" w]
    by (auto simp: processEventQueue_def getHandlerCount_def Let_def split: prod.splits)
  have e: "handlers (disp (runActions hs w acts)) = hs"
    by (simp add: runActions_def foldl_step_handlers initial_def)
  have s: "logs (runActions hs w acts)
       = concat (map snd (fst (drainLoop hs (handled (runActions hs w acts)) w)))"
    "world (runActions hs w acts) = snd (drainLoop hs (handled (runActions hs w acts)) w)"
    using runActions_sequential [of hs w acts] by (simp_all add: sequential_def)
  from a b p t c e s runHandlers_names [of ev hs w] drainLoop_events [of hs q w]
  show ?thesis by blast
qed

text \<open>
  The scenario of the spec: handlers A and B are registered and A always throws. Two
  events are queued. For each event A's error is logged and B completes (B counts the
  events it handled in the shared state); the queue ends empty and two handlers stay
  registered. With no handler registered the event gets the warning only.
\<close>

theorem handler_failure_is_swallowed_witness:
  "fst (handle handlerA (sampleEvent 1) (0::nat)) \<noteq> None \<and>
   fst (runHandler (sampleEvent 1) handlerA (0::nat)) = (LError, ''A'') \<and>
   filter (\<lambda>h. canHandle h (sampleEvent 1)) [handlerA, handlerB] \<noteq> [] \<and>
   processEvent [handlerA, handlerB] (sampleEvent 1) (0::nat)
     = ([(LError, ''A''), (Debug, ''B'')], 1) \<and>
   filter (\<lambda>h. canHandle h (sampleEvent 1)) ([] :: nat IEventHandler list) = [] \<and>
   processEvent [] (sampleEvent 1) (0::nat) = ([(Warn, ''No handlers found'')], 0) \<and>
   \<not> isProcessing \<lparr>handlers = [handlerA, handlerB],
                    eventQueue = [sampleEvent 1, sampleEvent 2], isProcessing = False\<rparr> \<and>
   (case processEventQueue
           \<lparr>handlers = [handlerA, handlerB],
            eventQueue = [sampleEvent 1, sampleEvent 2], isProcessing = False\<rparr> (0::nat) of
      (tr, d', w') \<Rightarrow>
        tr = [(sampleEvent 1, [(LError, ''A''), (Debug, ''B'')]),
              (sampleEvent 2, [(LError, ''A''), (Debug, ''B'')])] \<and>
        w' = 2 \<and> getQueueSize d' = 0 \<and> getHandlerCount d' = 2)"
proof -
  let ?hs = "[handlerA, handlerB]"
  let ?d = "\<lparr>handlers = ?hs,
             eventQueue = [sampleEvent 1, sampleEvent 2], isProcessing = False\<rparr>"
  have raises: "fst (handle handlerA (sampleEvent 1) (0::nat)) \<noteq> None"
    by (simp add: handlerA_def)
  have idle: "\<not> isProcessing ?d" by simp
  have el: "filter (\<lambda>h. canHandle h ev) ?hs = ?hs" for ev
    by (simp add: handlerA_def handlerB_def)
  have ne: "filter (\<lambda>h. canHandle h (sampleEvent 1)) ?hs \<noteq> []"
    by (simp add: handlerA_def handlerB_def)
  have em: "filter (\<lambda>h. canHandle h (sampleEvent 1)) ([] :: nat IEventHandler list) = []" by simp
  note inst = handler_failure_is_swallowed
    [of handlerA "sampleEvent 1" "0::nat" "[]" "[handlerB]" ?hs "[sampleEvent 1, sampleEvent 2]" ?d "[]"]
  note inst0 = handler_failure_is_swallowed
    [of handlerA "sampleEvent 1" "0::nat" "[]" "[handlerB]" "[]" "[]" ?d "[]"]
  from inst raises have l: "fst (runHandler (sampleEvent 1) handlerA (0::nat)) = (LError, handlerName handlerA)"
    by blast
  from inst ne have pw: "snd (processEvent ?hs (sampleEvent 1) (0::nat)) = 1"
    and pl: "fst (processEvent ?hs (sampleEvent 1) (0::nat)) = [(LError, ''A''), (Debug, ''B'')]"
    by (simp_all add: Let_def el handlerA_def handlerB_def)
  from pw pl have p: "processEvent ?hs (sampleEvent 1) (0::nat) = ([(LError, ''A''), (Debug, ''B'')], 1)"
    by (simp add: prod_eq_iff)
  from inst0 em have p0: "processEvent [] (sampleEvent 1) (0::nat) = ([(Warn, ''No handlers found'')], 0)"
    by (simp add: Let_def prod_eq_iff)
  from inst idle have "getHandlerCount (fst (snd (processEventQueue ?d (0::nat)))) = getHandlerCount ?d"
    by (auto split: prod.splits)
  moreover have "processEventQueue ?d (0::nat) =
     ([(sampleEvent 1, [(LError, ''A''), (Debug, ''B'')]),
       (sampleEvent 2, [(LError, ''A''), (Debug, ''B'')])],
      ?d\<lparr>eventQueue := [], isProcessing := False\<rparr>, 2)"
    by (simp add: processEventQueue_def processEvent_def runHandler_def handlerA_def
        handlerB_def Let_def)
  ultimately show ?thesis using raises l idle ne em p p0
    by (simp add: getQueueSize_def getHandlerCount_def handlerA_def)
qed


section \<open>Properties of canHandle\<close>

text \<open>
  C9, as amended. \<open>canHandle\<close> of the Transfer handler, in both variants of the handler
  (the hash as a constant, the hash asked of the ABI), is true exactly when the event
  type is \<open>contract_log\<close>, the contract address is not empty and the first topic is the
  canonical Transfer hash.
\<close>

theorem canHandle_iff:
  "canHandle_erc20 ev =
     (eventType ev = ''contract_log'' \<and> contractAddress ev \<noteq> [] \<and>
      firstTopic ev =
        Some ''0xddf252ad1be2c89b69c2b068fc378daa952ba7f163c4a11628f55a4df523b3ef'') \<and>
   canHandle_const ev = canHandle_erc20 ev"
  by (auto simp: canHandle_erc20_def canHandle_const_def isTransferEvent_def
      isTransferEvent_const_def getEventSignatureHash_erc20_def TRANSFER_EVENT_SIGNATURE_def
      split: option.splits)

text \<open>
  The claim as stated leaves the address out. An event of type \<open>contract_log\<close> whose first
  topic is the Transfer hash and whose \<open>contractAddress\<close> is the empty string (the
  push listener writes one for a transaction without a recipient) is refused.
\<close>

theorem canHandle_empty_address_counterexample:
  "\<not> (canHandle_erc20 ((sampleEvent 1)\<lparr>contractAddress := ''''\<rparr>) =
       (eventType ((sampleEvent 1)\<lparr>contractAddress := ''''\<rparr>) = ''contract_log'' \<and>
        firstTopic ((sampleEvent 1)\<lparr>contractAddress := ''''\<rparr>) =
          Some ''0xddf252ad1be2c89b69c2b068fc378daa952ba7f163c4a11628f55a4df523b3ef''))"
  by (simp add: canHandle_erc20_def sampleEvent_def sampleData_def firstTopic_def
      TRANSFER_EVENT_SIGNATURE_def)

section \<open>Properties of the Transfer handler\<close>

subsection \<open>lastProcessedBlock never decreases\<close>

lemma mono_opD: "mono_op m \<Longrightarrow> lpbOf s k \<le> lpbOf (snd (m s)) k"
  unfolding mono_op_def by blast

lemma mono_returnOp: "mono_op (returnOp a)"
  by (simp add: mono_op_def returnOp_def)

lemma mono_bindOp:
  assumes "mono_op m" "\<And>a. mono_op (f a)"
  shows "mono_op (bindOp m f)"
  unfolding mono_op_def
proof (intro allI)
  fix s k
  show "lpbOf s k \<le> lpbOf (snd (bindOp m f s)) k"
  proof (cases "m s")
    case (Pair r s1)
    from mono_opD [OF assms(1), of s k] Pair have le1: "lpbOf s k \<le> lpbOf s1 k"
      by simp
    show ?thesis
    proof (cases r)
      case (Inl e)
      with Pair le1 show ?thesis by (simp add: bindOp_def)
    next
      case (Inr a)
      have "lpbOf s1 k \<le> lpbOf (snd (f a s1)) k"
        by (rule mono_opD [OF assms(2)])
      with Pair Inr le1 show ?thesis by (simp add: bindOp_def)
    qed
  qed
qed

lemma mono_findByAddress: "mono_op (findByAddress fault site addr cid)"
  by (simp add: mono_op_def findByAddress_def storeCall_def split: option.splits)

lemma mono_findOneAndUpdate:
  assumes "\<And>c. orZero (lastProcessedBlock c) \<le> orZero (lastProcessedBlock (u c))"
  shows "mono_op (findOneAndUpdate fault site addr cid u)"
  using assms
  by (auto simp: mono_op_def findOneAndUpdate_def storeCall_def lpbOf_def split: option.splits)

lemma mono_saveERC20Data: "mono_op (saveERC20Data fault site addr cid n sy d b)"
  by (auto simp: mono_op_def saveERC20Data_def storeCall_def lpbOf_def Let_def orZero_def
      split: option.splits)

lemma mono_updateLastProcessedBlock:
  "mono_op (updateLastProcessedBlock fault i j addr cid b)"
  by (auto simp: mono_op_def updateLastProcessedBlock_def bindOp_def findByAddress_def
      findOneAndUpdate_def storeCall_def returnOp_def lpbOf_def orZero_def unsetOrBelow_def
      split: option.splits)

lemma mono_setFirstSeenBlock:
  "mono_op (setFirstSeenBlock fault i j addr cid b)"
  unfolding setFirstSeenBlock_def
  by (intro mono_bindOp mono_findByAddress)
     (auto intro!: mono_returnOp mono_findOneAndUpdate split: option.splits)

lemma body_absent:
  assumes "s (contractAddress ev, chainId ev) = None"
  shows "lpbOf s k \<le> lpbOf (snd (updateContractMetadata_body fault ev td s)) k"
  using assms
  by (auto simp: updateContractMetadata_body_def Let_def bindOp_def findByAddress_def
      storeCall_def saveERC20Data_def updateContract_def findOneAndUpdate_def returnOp_def
      lpbOf_def orZero_def split: option.splits)

lemma mono_present:
  "mono_op
     (bindOp (updateLastProcessedBlock fault 2 3 addr cid b) (\<lambda>_.
      bindOp (if z then setFirstSeenBlock fault 4 5 addr cid b else returnOp None) (\<lambda>_.
      bindOp (updateContract fault 6 addr cid (\<lambda>d. d\<lparr>cd_metadata := md\<rparr>)) (\<lambda>_.
      returnOp ()))))"
  unfolding updateContract_def
  by (intro mono_bindOp mono_updateLastProcessedBlock)
     (auto intro!: mono_bindOp mono_returnOp mono_findOneAndUpdate mono_setFirstSeenBlock)

lemma bind_find:
  "fault site = None \<Longrightarrow> bindOp (findByAddress fault site addr cid) f s = f (s (addr, cid)) s"
  by (simp add: bindOp_def findByAddress_def storeCall_def)

lemma bind_find_fail:
  "fault site = Some code \<Longrightarrow> bindOp (findByAddress fault site addr cid) f s = (Inl code, s)"
  by (simp add: bindOp_def findByAddress_def storeCall_def)

lemma body_present:
  assumes "s (contractAddress ev, chainId ev) = Some c"
  shows "lpbOf s k \<le> lpbOf (snd (updateContractMetadata_body fault ev td s)) k"
proof (cases "fault 1")
  case (Some code)
  then show ?thesis
    unfolding updateContractMetadata_body_def Let_def
    by (simp only: bind_find_fail [where fault=fault and site=1, OF Some] snd_conv order_refl)
next
  case None
  show ?thesis
    unfolding updateContractMetadata_body_def Let_def
    by (simp only: bind_find [where fault=fault and site=1, OF None] assms option.case) (rule mono_opD [OF mono_present])
qed

lemma body_mono:
  "lpbOf s k \<le> lpbOf (snd (updateContractMetadata_body fault ev td s)) k"
  by (cases "s (contractAddress ev, chainId ev)") (simp_all add: body_absent body_present)

lemma snd_updateContractMetadata:
  "snd (updateContractMetadata fault ev td s) = snd (updateContractMetadata_body fault ev td s)"
  by (simp add: updateContractMetadata_def split: prod.splits sum.splits)

lemma updateContractMetadata_mono:
  "lpbOf s k \<le> lpbOf (snd (updateContractMetadata fault ev td s)) k"
  by (simp only: snd_updateContractMetadata body_mono)

lemma contracts_handle:
  "contracts (snd (snd (handle_erc20 fault racing ev w))) = contracts w \<or>
   (\<exists>td. contracts (snd (snd (handle_erc20 fault racing ev w)))
           = snd (updateContractMetadata fault ev td (contracts w)))"
  by (auto simp: handle_erc20_def Let_def split_beta split: option.splits)

lemma handle_mono:
  "lpbOf (contracts w) k \<le> lpbOf (contracts (snd (snd (handle_erc20 fault racing ev w)))) k"
  using contracts_handle [of fault racing ev w] updateContractMetadata_mono [of "contracts w" k fault ev]
  by auto

lemma handleAll_mono:
  "lpbOf (contracts w) k \<le> lpbOf (contracts (handleAll invs w)) k"
proof (induction invs arbitrary: w)
  case Nil
  then show ?case by simp
next
  case (Cons a invs)
  obtain fault racing ev where a: "a = (fault, racing, ev)" by (cases a) auto
  have "lpbOf (contracts w) k \<le> lpbOf (contracts (snd (snd (handle_erc20 fault racing ev w)))) k"
    by (rule handle_mono)
  also have "\<dots> \<le> lpbOf (contracts (handleAll invs (snd (snd (handle_erc20 fault racing ev w))))) k"
    by (rule Cons.IH)
  finally show ?case by (simp add: a)
qed

lemma present_exact:
  assumes "s (contractAddress ev, chainId ev) = Some c" "\<forall>i. fault i = None"
  shows "map_option lastProcessedBlock
           (snd (updateContractMetadata fault ev td s) (contractAddress ev, chainId ev))
         = Some (Some (max (orZero (lastProcessedBlock c)) (blockNumber ev)))"
  using assms
  by (auto simp: updateContractMetadata_def updateContractMetadata_body_def Let_def bindOp_def
      findByAddress_def storeCall_def updateContract_def findOneAndUpdate_def returnOp_def
      updateLastProcessedBlock_def setFirstSeenBlock_def unsetOrBelow_def unsetOrAbove_def
      orZero_def max_def split: option.splits)


text \<open>
  C4. Across any sequence of invocations of the Transfer handler, whatever store calls
  fail in them, the \<open>lastProcessedBlock\<close> of every contract data record never decreases
  (an unset field counting as 0). When the handler reaches a record that exists and no
  store call fails, the field becomes the maximum of its value and the event's block
  number, so an event of a lower block leaves it unchanged.
\<close>

theorem lastProcessedBlock_monotone:
  "lpbOf (contracts w) k \<le> lpbOf (contracts (handleAll invs w)) k \<and>
   (findConfig (configs w) (contractAddress ev) (chainId ev) = Some cfg \<and>
    extractTransferData ev cfg = Some td \<and>
    contracts w (contractAddress ev, chainId ev) = Some c \<and> (\<forall>i. fault i = None) \<longrightarrow>
      map_option lastProcessedBlock
        (contracts (snd (snd (handle_erc20 fault racing ev w))) (contractAddress ev, chainId ev))
      = Some (Some (max (orZero (lastProcessedBlock c)) (blockNumber ev))))"
proof -
  have "findConfig (configs w) (contractAddress ev) (chainId ev) = Some cfg \<and>
    extractTransferData ev cfg = Some td \<and>
    contracts w (contractAddress ev, chainId ev) = Some c \<and> (\<forall>i. fault i = None) \<longrightarrow>
      map_option lastProcessedBlock
        (contracts (snd (snd (handle_erc20 fault racing ev w))) (contractAddress ev, chainId ev))
      = Some (Some (max (orZero (lastProcessedBlock c)) (blockNumber ev)))"
  proof (intro impI, elim conjE)
    assume cfg: "findConfig (configs w) (contractAddress ev) (chainId ev) = Some cfg"
      and td: "extractTransferData ev cfg = Some td"
      and c: "contracts w (contractAddress ev, chainId ev) = Some c"
      and nf: "\<forall>i. fault i = None"
    have "contracts (snd (snd (handle_erc20 fault racing ev w)))
            = snd (updateContractMetadata fault ev td (contracts w))"
      using cfg td nf by (simp add: handle_erc20_def Let_def split_beta)
    with present_exact [where s="contracts w" and ev=ev and c=c and fault=fault and td=td, OF c nf] show "map_option lastProcessedBlock
        (contracts (snd (snd (handle_erc20 fault racing ev w))) (contractAddress ev, chainId ev))
      = Some (Some (max (orZero (lastProcessedBlock c)) (blockNumber ev)))"
      by simp
  qed
  with handleAll_mono [of w k invs] show ?thesis by blast
qed

text \<open>
  An instance: the record of the sample contract stands at block 100; a Transfer of block
  95 is handled with no store failure. The record still stands at block 100.
\<close>

theorem lastProcessedBlock_monotone_witness:
  "findConfig (configs sampleWorld) (contractAddress (transferEvent 95)) (chainId (transferEvent 95))
     = Some sampleConfig \<and>
   extractTransferData (transferEvent 95) sampleConfig = Some sampleTransfer \<and>
   contracts sampleWorld (contractAddress (transferEvent 95), chainId (transferEvent 95))
     = Some sampleContractData \<and>
   (\<forall>i. noFault i = None) \<and>
   map_option lastProcessedBlock
     (contracts (snd (snd (handle_erc20 noFault [] (transferEvent 95) sampleWorld))) (''0xaaa'', 1))
     = Some (Some 100)"
proof -
  have cfg: "findConfig (configs sampleWorld) (contractAddress (transferEvent 95))
               (chainId (transferEvent 95)) = Some sampleConfig"
    by (simp add: findConfig_def sampleWorld_def transferEvent_def sampleEvent_def
        sampleConfig_def lowercase_def)
  have td: "extractTransferData (transferEvent 95) sampleConfig = Some sampleTransfer"
    by (simp add: extractTransferData_def transferEvent_def sampleEvent_def sampleData_def
        sampleConfig_def sampleTransfer_def configDecimals_def configIsStablecoin_def
        configPriority_def)
  have c: "contracts sampleWorld (contractAddress (transferEvent 95), chainId (transferEvent 95))
             = Some sampleContractData"
    by (simp add: sampleWorld_def transferEvent_def sampleEvent_def)
  have nf: "\<forall>i. noFault i = None" by (simp add: noFault_def)
  have key: "(contractAddress (transferEvent 95), chainId (transferEvent 95)) = (''0xaaa'', 1)"
    by (simp add: transferEvent_def sampleEvent_def)
  from lastProcessedBlock_monotone
         [of sampleWorld "(''0xaaa'', 1)" "[]" "transferEvent 95" sampleConfig sampleTransfer
             sampleContractData noFault "[]"] cfg td c nf
  have "map_option lastProcessedBlock
     (contracts (snd (snd (handle_erc20 noFault [] (transferEvent 95) sampleWorld)))
        (contractAddress (transferEvent 95), chainId (transferEvent 95)))
     = Some (Some (max (orZero (lastProcessedBlock sampleContractData))
                       (blockNumber (transferEvent 95))))"
    by blast
  then have "map_option lastProcessedBlock
     (contracts (snd (snd (handle_erc20 noFault [] (transferEvent 95) sampleWorld))) (''0xaaa'', 1))
     = Some (Some 100)"
    by (simp add: key) (simp add: sampleContractData_def orZero_def transferEvent_def sampleEvent_def)
  with cfg td c nf show ?thesis by blast
qed

subsection \<open>Persisting an event is idempotent\<close>

lemma findOne_None: "(findOne s k = None) = (k \<notin> set (map docKey s))"
  by (auto simp: findOne_def find_None_iff)

lemma docKey_enhancedEvent: "docKey (enhancedEvent ev td) = eventKey ev"
  by (simp add: docKey_def enhancedEvent_def eventKey_def)

lemma insertOthers_keys: "set (map docKey s) \<subseteq> set (map docKey (insertOthers s ds))"
  by (induction ds arbitrary: s) (fastforce simp: insertDoc_def)+

lemma insertOthers_distinct:
  "distinct (map docKey s) \<Longrightarrow> distinct (map docKey (insertOthers s ds))"
  by (induction ds arbitrary: s) (auto simp: insertDoc_def)

lemma saveEvent_present:
  assumes "eventKey ev \<in> set (map docKey s)"
  shows "snd (saveEvent fault racing ev td s) = s"
proof (cases "findOne s (eventKey ev)")
  case None
  with assms show ?thesis by (simp add: findOne_None)
next
  case (Some d)
  then show ?thesis by (simp add: saveEvent_def split: option.splits)
qed

lemma saveEvent_distinct:
  assumes "distinct (map docKey s)"
  shows "distinct (map docKey (snd (saveEvent fault racing ev td s)))"
  using assms insertOthers_distinct [OF assms, of racing]
  by (auto simp: saveEvent_def Let_def insertDoc_def docKey_enhancedEvent
      split: option.splits sum.splits if_splits)

lemma saveEvent_stores:
  assumes "fault 7 = None" "fault 8 = None"
  shows "eventKey ev \<in> set (map docKey (snd (saveEvent fault racing ev td s)))"
proof (cases "findOne s (eventKey ev)")
  case None
  with assms show ?thesis
    by (auto simp: saveEvent_def Let_def insertDoc_def docKey_enhancedEvent)
next
  case (Some d)
  then have "eventKey ev \<in> set (map docKey s)"
    using findOne_None [of s "eventKey ev"] by simp
  with assms Some show ?thesis by (simp add: saveEvent_def)
qed

text \<open>
  C3. \<open>saveEvent\<close> first looks the key \<open>(transactionHash, logIndex, chainId)\<close> up and
  skips when a document has it; an insert that the unique index refuses (another writer
  inserted the key after the lookup) is skipped with a debug line only; an insert that
  goes through appends exactly the enhanced event; any other failure of the lookup or of
  the insert is logged at error level and the call returns. Hence with the key present
  the store is left as it is, whatever fails; a second persist after a first one that met
  no failure changes nothing; and the keys of the store stay pairwise distinct.
\<close>

theorem saveEvent_idempotent:
  "(fault 7 = None \<and> eventKey ev \<in> set (map docKey s) \<longrightarrow>
      saveEvent fault racing ev td s = ([(Debug, ''Event already exists'')], s)) \<and>
   (fault 7 = None \<and> fault 8 = None \<and> eventKey ev \<notin> set (map docKey s) \<and>
    eventKey ev \<in> set (map docKey (insertOthers s racing)) \<longrightarrow>
      saveEvent fault racing ev td s =
        ([(Debug, ''Duplicate event detected'')], insertOthers s racing)) \<and>
   (fault 7 = None \<and> fault 8 = None \<and>
    eventKey ev \<notin> set (map docKey (insertOthers s racing)) \<longrightarrow>
      saveEvent fault racing ev td s =
        ([(Debug, ''Saved Transfer event'')], insertOthers s racing @ [enhancedEvent ev td])) \<and>
   (fault 7 = Some code \<and> code \<noteq> 11000 \<longrightarrow>
      saveEvent fault racing ev td s =
        ([(LError, ''Error saving ERC20 event to database'')], s)) \<and>
   (fault 7 = None \<and> eventKey ev \<notin> set (map docKey s) \<and> fault 8 = Some code \<and>
    code \<noteq> 11000 \<longrightarrow>
      saveEvent fault racing ev td s =
        ([(LError, ''Error saving ERC20 event to database'')], insertOthers s racing)) \<and>
   (eventKey ev \<in> set (map docKey s) \<longrightarrow> snd (saveEvent fault racing ev td s) = s) \<and>
   (fault 7 = None \<and> fault 8 = None \<longrightarrow>
      snd (saveEvent fault2 racing2 ev td2 (snd (saveEvent fault racing ev td s)))
        = snd (saveEvent fault racing ev td s)) \<and>
   (distinct (map docKey s) \<longrightarrow>
      distinct (map docKey (snd (saveEvent fault racing ev td s))))"
proof -
  have a: "fault 7 = None \<and> eventKey ev \<in> set (map docKey s) \<longrightarrow>
      saveEvent fault racing ev td s = ([(Debug, ''Event already exists'')], s)"
    using findOne_None [of s "eventKey ev"]
    by (auto simp: saveEvent_def split: option.splits)
  have b: "fault 7 = None \<and> fault 8 = None \<and> eventKey ev \<notin> set (map docKey s) \<and>
    eventKey ev \<in> set (map docKey (insertOthers s racing)) \<longrightarrow>
      saveEvent fault racing ev td s =
        ([(Debug, ''Duplicate event detected'')], insertOthers s racing)"
    using findOne_None [of s "eventKey ev"]
    by (auto simp: saveEvent_def Let_def insertDoc_def docKey_enhancedEvent saveEvent_catch_def
        split: option.splits)
  have c: "fault 7 = None \<and> fault 8 = None \<and>
    eventKey ev \<notin> set (map docKey (insertOthers s racing)) \<longrightarrow>
      saveEvent fault racing ev td s =
        ([(Debug, ''Saved Transfer event'')], insertOthers s racing @ [enhancedEvent ev td])"
    using findOne_None [of s "eventKey ev"] insertOthers_keys [of s racing]
    by (auto simp: saveEvent_def Let_def insertDoc_def docKey_enhancedEvent
        split: option.splits)
  have d: "fault 7 = Some code \<and> code \<noteq> 11000 \<longrightarrow>
      saveEvent fault racing ev td s =
        ([(LError, ''Error saving ERC20 event to database'')], s)"
    by (auto simp: saveEvent_def saveEvent_catch_def)
  have e: "fault 7 = None \<and> eventKey ev \<notin> set (map docKey s) \<and> fault 8 = Some code \<and>
    code \<noteq> 11000 \<longrightarrow>
      saveEvent fault racing ev td s =
        ([(LError, ''Error saving ERC20 event to database'')], insertOthers s racing)"
    using findOne_None [of s "eventKey ev"]
    by (auto simp: saveEvent_def Let_def saveEvent_catch_def split: option.splits)
  have f: "eventKey ev \<in> set (map docKey s) \<longrightarrow> snd (saveEvent fault racing ev td s) = s"
    using saveEvent_present by blast
  have g: "fault 7 = None \<and> fault 8 = None \<longrightarrow>
      snd (saveEvent fault2 racing2 ev td2 (snd (saveEvent fault racing ev td s)))
        = snd (saveEvent fault racing ev td s)"
    using saveEvent_stores [of fault ev racing td s]
      saveEvent_present [of ev "snd (saveEvent fault racing ev td s)" fault2 racing2 td2]
    by blast
  have h: "distinct (map docKey s) \<longrightarrow>
      distinct (map docKey (snd (saveEvent fault racing ev td s)))"
    using saveEvent_distinct by blast
  from a b c d e f g h show ?thesis by blast
qed


text \<open>
  Instances for each case: the key present; the key inserted by a racing writer; a clean
  insert; a failing lookup; a failing insert; and a second persist after the first.
\<close>

theorem saveEvent_idempotent_witness:
  "noFault 7 = None \<and> noFault 8 = None \<and>
   eventKey (transferEvent 95) \<in> set (map docKey [enhancedEvent (transferEvent 95) sampleTransfer]) \<and>
   saveEvent noFault [] (transferEvent 95) sampleTransfer
       [enhancedEvent (transferEvent 95) sampleTransfer]
     = ([(Debug, ''Event already exists'')], [enhancedEvent (transferEvent 95) sampleTransfer]) \<and>
   eventKey (transferEvent 95) \<notin> set (map docKey []) \<and>
   eventKey (transferEvent 95)
     \<in> set (map docKey (insertOthers [] [enhancedEvent (transferEvent 95) sampleTransfer])) \<and>
   saveEvent noFault [enhancedEvent (transferEvent 95) sampleTransfer] (transferEvent 95)
       sampleTransfer []
     = ([(Debug, ''Duplicate event detected'')],
        [enhancedEvent (transferEvent 95) sampleTransfer]) \<and>
   eventKey (transferEvent 95) \<notin> set (map docKey (insertOthers [] [])) \<and>
   saveEvent noFault [] (transferEvent 95) sampleTransfer []
     = ([(Debug, ''Saved Transfer event'')], [enhancedEvent (transferEvent 95) sampleTransfer]) \<and>
   faultAt 7 1 7 = Some 1 \<and> (1::nat) \<noteq> 11000 \<and>
   saveEvent (faultAt 7 1) [] (transferEvent 95) sampleTransfer []
     = ([(LError, ''Error saving ERC20 event to database'')], []) \<and>
   faultAt 8 1 7 = None \<and> faultAt 8 1 8 = Some 1 \<and>
   saveEvent (faultAt 8 1) [] (transferEvent 95) sampleTransfer []
     = ([(LError, ''Error saving ERC20 event to database'')], []) \<and>
   snd (saveEvent (faultAt 8 1) [] (transferEvent 95) sampleTransfer
          [enhancedEvent (transferEvent 95) sampleTransfer])
     = [enhancedEvent (transferEvent 95) sampleTransfer] \<and>
   snd (saveEvent noFault [] (transferEvent 95) sampleTransfer
          (snd (saveEvent noFault [] (transferEvent 95) sampleTransfer [])))
     = [enhancedEvent (transferEvent 95) sampleTransfer] \<and>
   distinct (map docKey []) \<and>
   distinct (map docKey (snd (saveEvent noFault [] (transferEvent 95) sampleTransfer [])))"
proof -
  let ?ev = "transferEvent 95" and ?td = sampleTransfer
  let ?doc = "enhancedEvent (transferEvent 95) sampleTransfer"
  have n7: "noFault 7 = None" and n8: "noFault 8 = None" by (simp_all add: noFault_def)
  have f7: "faultAt 7 1 7 = Some 1" and f87: "faultAt 8 1 7 = None"
    and f88: "faultAt 8 1 8 = Some 1" by (simp_all add: faultAt_def)
  have ne: "(1::nat) \<noteq> 11000" by simp
  have k1: "eventKey ?ev \<in> set (map docKey [?doc])" by (simp add: docKey_enhancedEvent)
  have k0: "eventKey ?ev \<notin> set (map docKey [])" by simp
  have io: "insertOthers [] [?doc] = [?doc]" by (simp add: insertDoc_def)
  have k2: "eventKey ?ev \<in> set (map docKey (insertOthers [] [?doc]))"
    by (simp add: insertDoc_def docKey_enhancedEvent)
  have k3: "eventKey ?ev \<notin> set (map docKey (insertOthers [] []))" by simp
  note a = saveEvent_idempotent [of noFault ?ev "[?doc]" "[]" ?td 1 noFault "[]" ?td]
  note b = saveEvent_idempotent [of noFault ?ev "[]" "[?doc]" ?td 1 noFault "[]" ?td]
  note c = saveEvent_idempotent [of noFault ?ev "[]" "[]" ?td 1 noFault "[]" ?td]
  note d = saveEvent_idempotent [of "faultAt 7 1" ?ev "[]" "[]" ?td 1 noFault "[]" ?td]
  note e = saveEvent_idempotent [of "faultAt 8 1" ?ev "[]" "[]" ?td 1 noFault "[]" ?td]
  note f = saveEvent_idempotent [of "faultAt 8 1" ?ev "[?doc]" "[]" ?td 1 noFault "[]" ?td]
  from a n7 k1 have r1: "saveEvent noFault [] ?ev ?td [?doc]
     = ([(Debug, ''Event already exists'')], [?doc])" by blast
  from b n7 n8 k0 k2 have r2: "saveEvent noFault [?doc] ?ev ?td []
     = ([(Debug, ''Duplicate event detected'')], insertOthers [] [?doc])" by blast
  from c n7 n8 k3 have r3: "saveEvent noFault [] ?ev ?td []
     = ([(Debug, ''Saved Transfer event'')], insertOthers [] [] @ [?doc])" by blast
  from d f7 ne have r4: "saveEvent (faultAt 7 1) [] ?ev ?td []
     = ([(LError, ''Error saving ERC20 event to database'')], [])" by blast
  from e f87 f88 k0 ne have r5: "saveEvent (faultAt 8 1) [] ?ev ?td []
     = ([(LError, ''Error saving ERC20 event to database'')], insertOthers [] [])" by blast
  from f k1 have r6: "snd (saveEvent (faultAt 8 1) [] ?ev ?td [?doc]) = [?doc]" by blast
  from c n7 n8 have r7: "snd (saveEvent noFault [] ?ev ?td (snd (saveEvent noFault [] ?ev ?td [])))
     = snd (saveEvent noFault [] ?ev ?td [])" by blast
  from c have r8: "distinct (map docKey (snd (saveEvent noFault [] ?ev ?td [])))" by simp
  from r3 have s3: "snd (saveEvent noFault [] ?ev ?td []) = [?doc]" by simp
  show ?thesis
    using n7 n8 f7 f87 f88 ne k1 k0 k2 k3 r1 r2 r3 r4 r5 r6 r7 r8
    by (simp add: s3 insertDoc_def docKey_enhancedEvent)
qed

section \<open>Properties of the number model\<close>

lemma pow2_add: "(2::rat) powi (m + n) = 2 powi m * 2 powi n"
  by (simp add: power_int_add)

lemma pow2_less_imp: "(2::rat) powi m < 2 powi n \<Longrightarrow> m < n"
proof (rule ccontr)
  assume a: "(2::rat) powi m < 2 powi n" and "\<not> m < n"
  then have "n \<le> m" by simp
  then have "(2::rat) powi n \<le> 2 powi m" by (intro power_int_increasing) simp_all
  with a show False by simp
qed

lemma pow10_table: "\<forall>d \<in> set [0..<23]. js_pow10 d = Fin (10 ^ d)"
  by code_simp

lemma js_pow10_exact: "d \<le> 22 \<Longrightarrow> js_pow10 d = Fin (10 ^ d)"
  using pow10_table by simp

lemma quotient_of_pos:
  assumes "0 < a" "quotient_of a = (n, d)"
  shows "0 < n" "0 < d" "a = of_int n / of_int d"
proof -
  from assms(2) show d: "0 < d" by (rule quotient_of_denom_pos)
  from assms(2) show eq: "a = of_int n / of_int d" by (rule quotient_of_div)
  from assms(1) eq d show "0 < n" by (simp add: zero_less_divide_iff)
qed

lemma bitlen_powi_bounds:
  assumes "0 < (n::int)"
  shows "(2::rat) powi (bitlen n - 1) \<le> of_int n" "(of_int n :: rat) < 2 powi (bitlen n)"
proof -
  from bitlen_bounds [OF assms] have lo: "2 ^ nat (bitlen n - 1) \<le> n" and hi: "n < 2 ^ nat (bitlen n)"
    by auto
  from assms have b1: "1 \<le> bitlen n" by (auto simp: bitlen_alt_def)
  have "(2::rat) powi (bitlen n - 1) = 2 ^ nat (bitlen n - 1)"
    using b1 by (simp add: power_int_def)
  also have "\<dots> = of_int (2 ^ nat (bitlen n - 1))" by simp
  also have "\<dots> \<le> of_int n" using lo by (simp only: of_int_le_iff)
  finally show "(2::rat) powi (bitlen n - 1) \<le> of_int n" .
  have "(of_int n :: rat) < of_int (2 ^ nat (bitlen n))" using hi by (simp only: of_int_less_iff)
  also have "\<dots> = 2 powi (bitlen n)" using b1 by (simp add: power_int_def)
  finally show "(of_int n :: rat) < 2 powi (bitlen n)" .
qed

lemma ilog2_bounds:
  assumes "0 < a"
  shows "2 powi (ilog2 a) \<le> a" "a < 2 powi (ilog2 a + 1)"
proof -
  obtain n d where q: "quotient_of a = (n, d)" by (cases "quotient_of a")
  note qp = quotient_of_pos [OF assms q]
  let ?e0 = "bitlen n - bitlen d"
  have nlo: "(2::rat) powi (bitlen n - 1) \<le> of_int n" and nhi: "(of_int n :: rat) < 2 powi (bitlen n)"
    using bitlen_powi_bounds [OF qp(1)] by auto
  have dlo: "(2::rat) powi (bitlen d - 1) \<le> of_int d" and dhi: "(of_int d :: rat) < 2 powi (bitlen d)"
    using bitlen_powi_bounds [OF qp(2)] by auto
  have dpos: "(0::rat) < of_int d" using qp(2) by simp
  have npos: "(0::rat) < of_int n" using qp(1) by simp
  have up: "a < 2 powi (?e0 + 1)"
  proof -
    have "a * of_int d = of_int n" using qp(3) dpos by simp
    also have "\<dots> < 2 powi (bitlen n)" by (rule nhi)
    also have "\<dots> = 2 powi (?e0 + 1) * 2 powi (bitlen d - 1)"
      using pow2_add [of "?e0 + 1" "bitlen d - 1"] by (simp add: add.commute)
    also have "\<dots> \<le> 2 powi (?e0 + 1) * of_int d"
      using dlo by (simp add: mult_left_mono)
    finally show ?thesis using dpos by simp
  qed
  have low: "2 powi (?e0 - 1) < a"
  proof -
    have "(2::rat) powi (?e0 - 1) * of_int d < 2 powi (?e0 - 1) * 2 powi (bitlen d)"
      using dhi by (simp add: mult_strict_left_mono)
    also have "\<dots> = 2 powi (bitlen n - 1)" using pow2_add [of "?e0 - 1" "bitlen d"] by (simp add: add.commute)
    also have "\<dots> \<le> of_int n" by (rule nlo)
    also have "\<dots> = a * of_int d" using qp(3) dpos by simp
    finally show ?thesis using dpos by simp
  qed
  show "2 powi (ilog2 a) \<le> a" using low q by (simp add: ilog2_def Let_def)
  show "a < 2 powi (ilog2 a + 1)" using up q
    by (auto simp: ilog2_def Let_def)
qed


lemma round_half_even_err: "\<bar>of_int (round_half_even x) - x\<bar> \<le> 1 / 2"
proof -
  have "of_int \<lfloor>x\<rfloor> \<le> x" "x < of_int \<lfloor>x\<rfloor> + 1" by linarith+
  then show ?thesis
    by (auto simp: round_half_even_def Let_def)
qed

lemma round_half_even_of_int [simp]: "round_half_even (of_int z) = z"
  by (simp add: round_half_even_def)

lemma round_double_normal:
  assumes lo: "2 powi (- 1022) \<le> q" and hi: "q < 2 powi 1023"
  shows "\<exists>x. round_double q = Fin x \<and> \<bar>x - q\<bar> \<le> q / 2 ^ 53"
proof -
  have qpos: "0 < q" using lo by (rule less_le_trans [rotated]) simp
  let ?e = "ilog2 q"
  let ?k = "?e - 52"
  let ?y = "q / 2 powi ?k"
  let ?m = "round_half_even ?y"
  note b = ilog2_bounds [OF qpos]
  have e_lo: "- 1022 \<le> ?e"
  proof -
    from lo b(2) have "(2::rat) powi (- 1022) < 2 powi (?e + 1)" by simp
    then have "- 1022 < ?e + 1" by (rule pow2_less_imp)
    then show ?thesis by simp
  qed
  have e_hi: "?e \<le> 1022"
  proof -
    from hi b(1) have "(2::rat) powi ?e < 2 powi 1023" by simp
    then have "?e < 1023" by (rule pow2_less_imp)
    then show ?thesis by simp
  qed
  have k: "max (?e - 52) (- 1074) = ?k" using e_lo by simp
  have kpos: "(0::rat) < 2 powi ?k" by simp
  have y_hi: "?y < 2 ^ 53"
  proof -
    have "q < 2 powi (?e + 1)" by (rule b(2))
    also have "\<dots> = 2 ^ 53 * 2 powi ?k" using pow2_add [of 53 ?k] by (simp add: add.commute)
    finally show ?thesis using kpos by (simp add: divide_less_eq)
  qed
  have err: "\<bar>of_int ?m - ?y\<bar> \<le> 1 / 2" by (rule round_half_even_err)
  have m_hi: "?m < 2 ^ 54"
  proof (rule ccontr)
    assume "\<not> ?m < 2 ^ 54"
    then have "(2 ^ 54 :: int) \<le> ?m" by simp
    then have "(of_int (2 ^ 54) :: rat) \<le> of_int ?m" by (simp only: of_int_le_iff)
    then have "(18014398509481984 :: rat) \<le> of_int ?m" by simp
    moreover from y_hi have "?y < 9007199254740992" by simp
    ultimately show False using err by linarith
  qed
  have m_lo: "0 \<le> ?m"
  proof (rule ccontr)
    assume "\<not> 0 \<le> ?m"
    then have "?m \<le> - 1" by simp
    then have "(of_int ?m :: rat) \<le> of_int (- 1)" by (simp only: of_int_le_iff)
    then have "(of_int ?m :: rat) \<le> - 1" by simp
    moreover have "0 \<le> ?y" using qpos by simp
    ultimately show False using err by linarith
  qed
  have bl: "bitlen ?m \<le> 54"
    using m_hi by (simp add: bitlen_le_iff_power)
  have no_ovf: "\<not> 1024 < bitlen ?m + ?k" using bl e_hi by simp
  have val: "round_double q = Fin (of_int ?m * 2 powi ?k)"
    using qpos no_ovf k by (simp add: round_double_def Let_def)
  have "\<bar>of_int ?m * 2 powi ?k - q\<bar> = \<bar>of_int ?m - ?y\<bar> * 2 powi ?k"
  proof -
    have "of_int ?m * 2 powi ?k - q = (of_int ?m - ?y) * 2 powi ?k"
      using kpos by (simp add: algebra_simps)
    then show ?thesis using kpos by (simp add: abs_mult)
  qed
  also have "\<dots> \<le> 1 / 2 * 2 powi ?k"
    using err kpos by (simp add: mult_right_mono)
  also have "\<dots> = 2 powi ?e / 2 ^ 53"
  proof -
    have "(2::rat) powi ?e = 2 ^ 52 * 2 powi ?k" using pow2_add [of 52 ?k] by (simp add: add.commute)
    then show ?thesis by simp
  qed
  also have "\<dots> \<le> q / 2 ^ 53" using b(1) by (simp add: divide_right_mono)
  finally show ?thesis using val by blast
qed


lemma pow2_neg: "(2::rat) powi (- int j) = 1 / 2 ^ j"
  by (simp add: power_int_minus_divide)

lemma floor_half: "\<lfloor>(1::rat) / 2\<rfloor> = 0"
  by (rule floor_unique) simp_all

lemma Number_of_BigInt_exact:
  assumes "0 \<le> N" "N < 2 ^ 53"
  shows "Number_of_BigInt N = Fin (of_int N)"
proof (cases "N = 0")
  case True
  then show ?thesis by (simp add: Number_of_BigInt_def round_double_def)
next
  case False
  with assms have Npos: "0 < N" by simp
  let ?q = "of_int N :: rat"
  let ?e = "ilog2 ?q"
  have qpos: "0 < ?q" using Npos by simp
  note b = ilog2_bounds [OF qpos]
  have e_hi: "?e \<le> 52"
  proof -
    have "?q < of_int (2 ^ 53)" using assms(2) by (simp only: of_int_less_iff)
    then have "?q < 2 powi 53" by simp
    with b(1) have "(2::rat) powi ?e < 2 powi 53" by (rule le_less_trans)
    then have "?e < 53" by (rule pow2_less_imp)
    then show ?thesis by simp
  qed
  have e_lo: "0 \<le> ?e"
  proof -
    have "(1::rat) \<le> ?q" using Npos by simp
    with b(2) have "(2::rat) powi 0 < 2 powi (?e + 1)" by simp
    then have "0 < ?e + 1" by (rule pow2_less_imp)
    then show ?thesis by simp
  qed
  let ?j = "nat (52 - ?e)"
  have k: "max (?e - 52) (- 1074) = ?e - 52" using e_lo by simp
  have pk: "(2::rat) powi (?e - 52) = 1 / 2 ^ ?j"
  proof -
    have "?e - 52 = - int ?j" using e_hi by simp
    then have "(2::rat) powi (?e - 52) = 2 powi (- int ?j)" by (rule arg_cong)
    also have "\<dots> = 1 / 2 ^ ?j" by (rule pow2_neg)
    finally show ?thesis .
  qed
  have y: "?q / 2 powi (?e - 52) = of_int (N * 2 ^ ?j)" by (simp add: pk)
  have m: "round_half_even (?q / 2 powi (?e - 52)) = N * 2 ^ ?j"
    by (simp only: y round_half_even_of_int)
  have bl: "bitlen (N * 2 ^ ?j) = bitlen N + int ?j" using Npos by simp
  have "bitlen N \<le> 53" using assms(2) by (simp add: bitlen_le_iff_power)
  with bl e_hi have no_ovf: "\<not> 1024 < bitlen (N * 2 ^ ?j) + (?e - 52)" by simp
  have "of_int (N * 2 ^ ?j) * (2::rat) powi (?e - 52) = ?q" by (simp add: pk)
  with qpos no_ovf show ?thesis
    by (simp add: Number_of_BigInt_def round_double_def Let_def k m del: of_int_mult of_int_power)
qed

lemma rendered_micro:
  assumes "0 \<le> N" "N < 2 ^ 52"
  shows "\<exists>x. number_div (Number_of_BigInt N) (Fin 1000000) = Fin x \<and> 0 \<le> x \<and>
             \<lfloor>\<bar>x\<bar> * 1000000 + 1 / 2\<rfloor> = N"
proof (cases "N = 0")
  case True
  then show ?thesis
    by (simp add: Number_of_BigInt_def round_double_def number_div_def floor_half)
next
  case False
  with assms have Npos: "0 < N" by simp
  from assms have ex: "Number_of_BigInt N = Fin (of_int N)"
    by (intro Number_of_BigInt_exact) simp_all
  let ?q = "of_int N / 1000000 :: rat"
  have qpos: "0 < ?q" using Npos by simp
  have N1: "(1::rat) \<le> of_int N" using Npos by simp
  have Nhi: "(of_int N :: rat) < 4503599627370496"
  proof -
    have "(of_int N :: rat) < of_int (2 ^ 52)" using assms(2) by (simp only: of_int_less_iff)
    then show ?thesis by simp
  qed
  have lo: "2 powi (- 1022) \<le> ?q"
  proof -
    have "(2::rat) powi (- 1022) \<le> 2 powi (- 20)" by (intro power_int_increasing) simp_all
    also have "\<dots> = 1 / 1048576" by (simp add: power_int_minus_divide)
    also have "\<dots> \<le> ?q" using N1 by simp
    finally show ?thesis .
  qed
  have hi: "?q < 2 powi 1023"
  proof -
    have "?q < 2 powi 52" using Nhi by simp
    also have "\<dots> \<le> 2 powi 1023" by (intro power_int_increasing) simp_all
    finally show ?thesis .
  qed
  from round_double_normal [OF lo hi] obtain x
    where x: "round_double ?q = Fin x" and err: "\<bar>x - ?q\<bar> \<le> ?q / 2 ^ 53" by blast
  have small: "?q / 2 ^ 53 * 1000000 < 1 / 2" using Nhi by simp
  have d1: "\<bar>x * 1000000 - of_int N\<bar> < 1 / 2"
  proof -
    have eq: "(x - ?q) * 1000000 = x * 1000000 - of_int N" by (simp add: algebra_simps)
    have "\<bar>x * 1000000 - of_int N\<bar> = \<bar>(x - ?q) * 1000000\<bar>" by (simp only: eq)
    also have "\<dots> = \<bar>x - ?q\<bar> * \<bar>1000000\<bar>" by (rule abs_mult)
    also have "\<dots> = \<bar>x - ?q\<bar> * 1000000" by simp
    also have "\<dots> \<le> ?q / 2 ^ 53 * 1000000" using err by (simp del: times_divide_eq_left)
    also have "\<dots> < 1 / 2" by (rule small)
    finally show ?thesis .
  qed
  have xpos: "0 \<le> x" using d1 N1 by linarith
  have "\<lfloor>x * 1000000 + 1 / 2\<rfloor> = N"
  proof (rule floor_unique)
    show "of_int N \<le> x * 1000000 + 1 / 2" using d1 by linarith
    show "x * 1000000 + 1 / 2 < of_int N + 1" using d1 by linarith
  qed
  with xpos have "\<lfloor>\<bar>x\<bar> * 1000000 + 1 / 2\<rfloor> = N" by simp
  moreover have "number_div (Number_of_BigInt N) (Fin 1000000) = Fin x"
    using x by (simp add: ex number_div_def)
  ultimately show ?thesis using xpos by blast
qed

lemma round_double_overflow:
  assumes "2 ^ 1024 \<le> q"
  shows "round_double q = PosInfinity"
proof -
  have qpos: "0 < q" using assms by (rule less_le_trans [rotated]) simp
  let ?e = "ilog2 q"
  let ?k = "?e - 52"
  let ?y = "q / 2 powi ?k"
  let ?m = "round_half_even ?y"
  note b = ilog2_bounds [OF qpos]
  have e_lo: "1024 \<le> ?e"
  proof -
    have "(2::rat) powi 1024 \<le> q" using assms by simp
    with b(2) have "(2::rat) powi 1024 < 2 powi (?e + 1)" by (rule le_less_trans [rotated])
    then have "1024 < ?e + 1" by (rule pow2_less_imp)
    then show ?thesis by simp
  qed
  have k: "max (?e - 52) (- 1074) = ?k" using e_lo by simp
  have kpos: "(0::rat) < 2 powi ?k" by simp
  have y_lo: "2 ^ 52 \<le> ?y"
  proof -
    have "(2::rat) ^ 52 * 2 powi ?k = 2 powi ?e" using pow2_add [of 52 ?k] by (simp add: add.commute)
    also have "\<dots> \<le> q" by (rule b(1))
    finally show ?thesis using kpos by (simp add: le_divide_eq)
  qed
  have err: "\<bar>of_int ?m - ?y\<bar> \<le> 1 / 2" by (rule round_half_even_err)
  have m_lo: "2 ^ 52 \<le> ?m"
  proof (rule ccontr)
    assume "\<not> 2 ^ 52 \<le> ?m"
    then have "?m \<le> 2 ^ 52 - 1" by simp
    then have "(of_int ?m :: rat) \<le> of_int (2 ^ 52 - 1)" by (simp only: of_int_le_iff)
    then have "(of_int ?m :: rat) \<le> 4503599627370495" by simp
    moreover from y_lo have "4503599627370496 \<le> ?y" by simp
    ultimately show False using err by linarith
  qed
  have "53 \<le> bitlen ?m" using m_lo by (simp add: bitlen_ge_iff_power)
  with e_lo have ovf: "1024 < bitlen ?m + ?k" by simp
  show ?thesis using qpos ovf k by (simp add: round_double_def Let_def)
qed

lemma js_pow10_overflow:
  assumes "309 \<le> d"
  shows "BigInt_of_number (js_pow10 d) = Inl RangeError"
proof -
  have "(2::rat) ^ 1024 \<le> 10 ^ 309" by simp
  also have "\<dots> \<le> 10 ^ d" using assms by (intro power_increasing) simp_all
  finally have "round_double (10 ^ d) = PosInfinity" by (rule round_double_overflow)
  then show ?thesis by (simp add: js_pow10_def BigInt_of_number_def)
qed


subsection \<open>Rendering a number and reading it back\<close>

lemma digitChar_isDigit: "d < 10 \<Longrightarrow> isDigit (digitChar d)"
proof -
  assume "d < 10"
  then have "d \<in> {0,1,2,3,4,5,6,7,8,9}" by auto
  then show ?thesis by (auto simp: isDigit_def digitChar_def)
qed

lemma digitValue_digitChar: "d < 10 \<Longrightarrow> digitValue (digitChar d) = Some (int d)"
proof -
  assume "d < 10"
  then have "d \<in> {0,1,2,3,4,5,6,7,8,9}" by auto
  then show ?thesis by (auto simp: digitValue_def digitChar_def)
qed

lemma digitsOf_isDigit: "\<forall>c \<in> set (digitsOf n). isDigit c"
proof (induction n rule: digitsOf.induct)
  case (1 n)
  show ?case
  proof (cases "n < 10")
    case True
    then show ?thesis by (subst digitsOf.simps) (simp add: digitChar_isDigit)
  next
    case False
    with 1 show ?thesis by (subst digitsOf.simps) (simp add: digitChar_isDigit)
  qed
qed

lemma digitsValue_append:
  "digitsValue b acc (xs @ ys) =
     (case digitsValue b acc xs of None \<Rightarrow> None | Some a \<Rightarrow> digitsValue b a ys)"
  by (induction xs arbitrary: acc) (auto split: option.splits)

lemma digitsValue_digitsOf:
  "digitsValue 10 acc (digitsOf n) = Some (acc * 10 ^ length (digitsOf n) + int n)"
proof (induction n arbitrary: acc rule: digitsOf.induct)
  case (1 n)
  show ?case
  proof (cases "n < 10")
    case True
    then show ?thesis
      by (subst (1 2) digitsOf.simps) (simp add: digitValue_digitChar)
  next
    case False
    have "int n = int (n div 10) * 10 + int (n mod 10)" by presburger
    with False 1 show ?thesis
      by (subst (1 2) digitsOf.simps)
         (simp add: digitsValue_append digitValue_digitChar algebra_simps)
  qed
qed


lemma isDigit_not_special:
  "isDigit c \<Longrightarrow> c \<noteq> CHR '','' \<and> c \<noteq> CHR ''.'' \<and> c \<noteq> CHR ''-''"
  by (auto simp: isDigit_def)

lemma filter_group3:
  "filter (\<lambda>c. c \<noteq> CHR '','') (group3 xs) = filter (\<lambda>c. c \<noteq> CHR '','') xs"
  by (induction xs rule: group3.induct) simp_all

lemma removeCommas_grouped:
  assumes "\<forall>c \<in> set ds. isDigit c"
  shows "removeCommas (grouped ds) = ds"
proof -
  have "removeCommas (grouped ds) = rev (filter (\<lambda>c. c \<noteq> CHR '','') (group3 (rev ds)))"
    by (simp add: removeCommas_def grouped_def rev_filter)
  also have "\<dots> = filter (\<lambda>c. c \<noteq> CHR '','') ds"
    by (simp add: filter_group3 rev_filter)
  also have "\<dots> = ds" using assms isDigit_not_special by (simp add: filter_id_conv)
  finally show ?thesis .
qed

lemma removeCommas_digits:
  assumes "\<forall>c \<in> set ds. isDigit c"
  shows "removeCommas ds = ds"
  using assms isDigit_not_special by (simp add: removeCommas_def filter_id_conv)

lemma digitsOf_nonempty: "digitsOf n \<noteq> []"
  by (subst digitsOf.simps) simp

lemma length_digitsOf: "n < 10 ^ k \<Longrightarrow> 0 < k \<Longrightarrow> length (digitsOf n) \<le> k"
proof (induction n arbitrary: k rule: digitsOf.induct)
  case (1 n)
  show ?case
  proof (cases "n < 10")
    case True
    with 1(3) show ?thesis by (subst digitsOf.simps) simp
  next
    case False
    from 1(3) obtain j where k: "k = Suc j" by (cases k) auto
    from False 1(2) k have j: "0 < j" by (cases j) auto
    from 1(2) k have "n div 10 < 10 ^ j" by (simp add: less_mult_imp_div_less mult.commute)
    with 1(1) [OF False this j] False k show ?thesis
      by (subst digitsOf.simps) simp
  qed
qed

lemma digitsValue_zeros: "digitsValue 10 acc (replicate z CHR ''0'') = Some (acc * 10 ^ z)"
  by (induction z arbitrary: acc) (simp_all add: digitValue_def)

lemma fractionDigits_props:
  assumes "f < 1000000"
  shows "length (fractionDigits f) = 6" "\<forall>c \<in> set (fractionDigits f). isDigit c"
    "digitsValue 10 0 (fractionDigits f) = Some (int f)"
proof -
  from assms have "f < 10 ^ 6" by simp
  then have len: "length (digitsOf f) \<le> 6" by (rule length_digitsOf) simp
  then show "length (fractionDigits f) = 6" by (simp add: fractionDigits_def)
  show "\<forall>c \<in> set (fractionDigits f). isDigit c"
  proof
    fix c assume "c \<in> set (fractionDigits f)"
    then have "c \<in> set (replicate (6 - length (digitsOf f)) CHR ''0'') \<or> c \<in> set (digitsOf f)"
      by (simp only: fractionDigits_def set_append Un_iff)
    then show "isDigit c"
    proof
      assume "c \<in> set (replicate (6 - length (digitsOf f)) CHR ''0'')"
      then have "c = CHR ''0''" by (simp only: in_set_replicate)
      then show ?thesis by (simp add: isDigit_def)
    next
      assume "c \<in> set (digitsOf f)"
      with digitsOf_isDigit [of f] show ?thesis by blast
    qed
  qed
  show "digitsValue 10 0 (fractionDigits f) = Some (int f)"
    by (simp add: fractionDigits_def digitsValue_append digitsValue_zeros digitsValue_digitsOf)
qed

lemma strip_trailing:
  "\<exists>z. xs = rev (dropWhile (\<lambda>c. c = a) (rev xs)) @ replicate z a"
proof -
  let ?P = "\<lambda>c. c = a"
  have "rev (rev xs) = rev (takeWhile ?P (rev xs) @ dropWhile ?P (rev xs))"
    by (simp only: takeWhile_dropWhile_id)
  then have xs: "xs = rev (dropWhile ?P (rev xs)) @ rev (takeWhile ?P (rev xs))"
    by (simp only: rev_rev_ident rev_append)
  have "\<forall>x \<in> set (takeWhile ?P (rev xs)). x = a" by (auto dest: set_takeWhileD)
  then have "takeWhile ?P (rev xs) = replicate (length (takeWhile ?P (rev xs))) a"
    by (simp add: replicate_length_same)
  then have "rev (takeWhile ?P (rev xs)) = rev (replicate (length (takeWhile ?P (rev xs))) a)"
    by (rule arg_cong)
  then have "rev (takeWhile ?P (rev xs)) = replicate (length (takeWhile ?P (rev xs))) a"
    by (simp only: rev_replicate)
  then have r: "rev (takeWhile ?P (rev xs)) = replicate (length (takeWhile ?P (rev xs))) a" .
  have "xs = rev (dropWhile ?P (rev xs)) @ replicate (length (takeWhile ?P (rev xs))) a"
    by (subst r [symmetric]) (rule xs)
  then show ?thesis by (rule exI)
qed

lemma trimFraction_decomp: "\<exists>z. ds = trimFraction ds @ replicate z CHR ''0''"
proof -
  from strip_trailing [of "drop 2 ds" "CHR ''0''"] obtain z
    where "drop 2 ds = rev (dropWhile (\<lambda>c. c = CHR ''0'') (rev (drop 2 ds))) @ replicate z CHR ''0''"
    by blast
  then have "take 2 ds @ drop 2 ds = trimFraction ds @ replicate z CHR ''0''"
    by (simp add: trimFraction_def)
  then show ?thesis by auto
qed

lemma trimFraction_value:
  assumes "f < 1000000"
  shows "\<exists>a. digitsValue 10 0 (trimFraction (fractionDigits f)) = Some a \<and>
             trimFraction (fractionDigits f) \<noteq> [] \<and>
             (\<forall>c \<in> set (trimFraction (fractionDigits f)). isDigit c) \<and>
             (of_int a :: rat) / 10 ^ length (trimFraction (fractionDigits f)) = of_nat f / 1000000"
proof -
  let ?fd = "fractionDigits f" and ?fs = "trimFraction (fractionDigits f)"
  note p = fractionDigits_props [OF assms]
  from trimFraction_decomp [of ?fd] obtain z where dec: "?fd = ?fs @ replicate z CHR ''0''" by blast
  from p(3) dec have "digitsValue 10 0 (?fs @ replicate z CHR ''0'') = Some (int f)" by simp
  then obtain a where a: "digitsValue 10 0 ?fs = Some a" and az: "a * 10 ^ z = int f"
    by (auto simp: digitsValue_append digitsValue_zeros split: option.splits)
  from dec p(1) have len: "length ?fs + z = 6" by (metis length_append length_replicate)
  have ne: "?fs \<noteq> []" using p(1) by (auto simp: trimFraction_def)
  have dig: "\<forall>c \<in> set ?fs. isDigit c"
  proof
    fix c assume "c \<in> set ?fs"
    then have "c \<in> set (?fs @ replicate z CHR ''0'')" by simp
    with dec have "c \<in> set ?fd" by simp
    with p(2) show "isDigit c" by blast
  qed
  have "(of_int a :: rat) / 10 ^ length ?fs = of_int (a * 10 ^ z) / (10 ^ length ?fs * 10 ^ z)"
    by simp
  also have "\<dots> = of_int (int f) / 10 ^ (length ?fs + z)" by (simp only: az power_add)
  also have "\<dots> = of_nat f / 1000000" by (simp add: len)
  finally show ?thesis using a ne dig by blast
qed

lemma parseUnsigned_decimal:
  assumes ds: "ds \<noteq> []" "\<forall>c \<in> set ds. isDigit c" "digitsValue 10 0 ds = Some i"
    and fs: "fs \<noteq> []" "digitsValue 10 0 fs = Some a"
  shows "parseUnsigned (ds @ ''.'' @ fs) = Some (of_int i + of_int a / 10 ^ length fs)"
proof -
  have nd: "\<forall>c \<in> set ds. c \<noteq> CHR ''.''" using ds(2) isDigit_not_special by blast
  have tw: "takeWhile (\<lambda>c. c \<noteq> CHR ''.'') (ds @ ''.'' @ fs) = ds"
    using nd by (simp add: takeWhile_append2)
  have dw: "dropWhile (\<lambda>c. c \<noteq> CHR ''.'') (ds @ ''.'' @ fs) = ''.'' @ fs"
    using nd by (simp add: dropWhile_append2)
  show ?thesis
    unfolding parseUnsigned_def Let_def tw dw using ds fs by simp
qed

lemma parseAmount_rendered:
  assumes "f < 1000000"
  shows "parseAmount (grouped (digitsOf i) @ ''.'' @ trimFraction (fractionDigits f))
           = Some (of_nat i + of_nat f / 1000000)"
proof -
  let ?ds = "digitsOf i" and ?fs = "trimFraction (fractionDigits f)"
  from trimFraction_value [OF assms] obtain a
    where a: "digitsValue 10 0 ?fs = Some a" and ne: "?fs \<noteq> []"
      and dig: "\<forall>c \<in> set ?fs. isDigit c"
      and val: "(of_int a :: rat) / 10 ^ length ?fs = of_nat f / 1000000" by blast
  have dsd: "\<forall>c \<in> set ?ds. isDigit c" by (rule digitsOf_isDigit)
  have rc: "removeCommas (grouped ?ds @ ''.'' @ ?fs) = ?ds @ ''.'' @ ?fs"
  proof -
    have "removeCommas (grouped ?ds @ ''.'' @ ?fs)
            = removeCommas (grouped ?ds) @ ''.'' @ removeCommas ?fs"
      by (simp add: removeCommas_def)
    then show ?thesis by (simp add: removeCommas_grouped [OF dsd] removeCommas_digits [OF dig])
  qed
  have hd: "hd (?ds @ ''.'' @ ?fs) \<noteq> CHR ''-''"
  proof -
    from digitsOf_nonempty [of i] obtain c cs where c: "?ds = c # cs" by (cases ?ds) auto
    with dsd have "isDigit c" by simp
    with c show ?thesis using isDigit_not_special by simp
  qed
  have dv: "digitsValue 10 0 ?ds = Some (int i)" by (simp add: digitsValue_digitsOf)
  from parseUnsigned_decimal [OF digitsOf_nonempty dsd dv ne a]
  have "parseUnsigned (?ds @ ''.'' @ ?fs) = Some (of_int (int i) + of_int a / 10 ^ length ?fs)" .
  with val hd show ?thesis unfolding parseAmount_def Let_def rc by simp
qed


section \<open>Properties of formatTokenAmount and isLargeTransfer\<close>


lemma BigInt_pow10:
  assumes "d \<le> 22"
  shows "BigInt_of_number (js_pow10 d) = Inr (10 ^ d)"
proof -
  have "(10::rat) ^ d = of_int (10 ^ d)" by simp
  then have "\<lfloor>(10::rat) ^ d\<rfloor> = 10 ^ d" by (simp only: floor_of_int)
  then show ?thesis
    by (simp add: js_pow10_exact [OF assms] BigInt_of_number_def)
qed

lemma bigint_div_nonneg:
  assumes "0 \<le> a" "0 < b"
  shows "bigint_div a b = Inr (a div b)"
proof (cases "a = 0")
  case True
  then show ?thesis using assms by (simp add: bigint_div_def)
next
  case False
  with assms have "0 < a" by simp
  with assms show ?thesis by (simp add: bigint_div_def)
qed

lemma toLocaleString_micro:
  assumes "0 \<le> x" "\<lfloor>\<bar>x\<bar> * 1000000 + 1 / 2\<rfloor> = N"
  shows "toLocaleString (Fin x) =
           grouped (digitsOf (nat N div 1000000)) @ ''.'' @
           trimFraction (fractionDigits (nat N mod 1000000))"
  using assms by (simp add: toLocaleString_def Let_def)

lemma formatTokenAmount_small:
  assumes v: "amount_toBigInt amt = Inr v" "0 \<le> v" and d: "d \<le> 22"
    and small: "v * 1000000 div 10 ^ d < 2 ^ 52"
  shows "formatTokenAmount amt d =
           grouped (digitsOf (nat (v * 1000000 div 10 ^ d) div 1000000)) @ ''.'' @
           trimFraction (fractionDigits (nat (v * 1000000 div 10 ^ d) mod 1000000))"
proof -
  let ?N = "v * 1000000 div 10 ^ d"
  have N0: "0 \<le> ?N" using v(2) by (simp add: pos_imp_zdiv_nonneg_iff)
  from rendered_micro [OF N0 small] obtain x
    where x: "number_div (Number_of_BigInt ?N) (Fin 1000000) = Fin x" "0 \<le> x"
      "\<lfloor>\<bar>x\<bar> * 1000000 + 1 / 2\<rfloor> = ?N" by blast
  have dv: "bigint_div (v * 1000000) (10 ^ d) = Inr ?N"
    using v(2) by (intro bigint_div_nonneg) simp_all
  have "formatTokenAmount_try amt d = Inr (toLocaleString (Fin x))"
    by (simp add: formatTokenAmount_try_def andThen_def v(1) BigInt_pow10 [OF d] dv x(1))
  then show ?thesis
    by (simp add: formatTokenAmount_def toLocaleString_micro [OF x(2) x(3)])
qed

lemma micro_split:
  "(of_nat (n div 1000000) + of_nat (n mod 1000000) / 1000000 :: rat) = of_nat n / 1000000"
proof -
  have "(of_nat n :: rat) = of_nat (n div 1000000 * 1000000 + n mod 1000000)"
    by (simp only: div_mult_mod_eq)
  also have "\<dots> = of_nat (n div 1000000) * 1000000 + of_nat (n mod 1000000)"
    by (simp only: of_nat_add of_nat_mult of_nat_numeral)
  finally have "(of_nat n :: rat) / 1000000
      = (of_nat (n div 1000000) * 1000000 + of_nat (n mod 1000000)) / 1000000"
    by (rule arg_cong)
  also have "\<dots> = of_nat (n div 1000000) + of_nat (n mod 1000000) / 1000000"
    by (simp add: add_divide_distrib)
  finally show ?thesis by (rule sym)
qed

text \<open>
  C6, as amended. For a non-negative amount, at most 22 decimals and a scaled value
  \<open>valueRaw * 10^6 div 10^decimals\<close> below \<open>2^52\<close>, \<open>formatTokenAmount\<close> renders exactly
  that scaled integer divided by \<open>10^6\<close>: the string reads back, as a decimal numeral
  with the grouping commas removed, to \<open>(valueRaw * 10^6 div 10^decimals) / 10^6\<close>, which
  is at most \<open>valueRaw / 10^decimals\<close> and less than \<open>10^-6\<close> below it.
\<close>

theorem formatTokenAmount_truncates:
  "amount_toBigInt amt = Inr v \<and> 0 \<le> v \<and> d \<le> 22 \<and> v * 1000000 div 10 ^ d < 2 ^ 52 \<longrightarrow>
     parseAmount (formatTokenAmount amt d) = Some (of_int (v * 1000000 div 10 ^ d) / 1000000) \<and>
     of_int (v * 1000000 div 10 ^ d) / 1000000 \<le> (of_int v / 10 ^ d :: rat) \<and>
     (of_int v / 10 ^ d :: rat) - of_int (v * 1000000 div 10 ^ d) / 1000000 < 1 / 1000000"
proof (intro impI, elim conjE)
  assume v: "amount_toBigInt amt = Inr v" and v0: "0 \<le> v" and d: "d \<le> 22"
    and small: "v * 1000000 div 10 ^ d < 2 ^ 52"
  let ?N = "v * 1000000 div 10 ^ d"
  have N0: "0 \<le> ?N" using v0 by (simp add: pos_imp_zdiv_nonneg_iff)
  have m: "nat ?N mod 1000000 < 1000000" by simp
  have "parseAmount (formatTokenAmount amt d)
          = Some (of_nat (nat ?N div 1000000) + of_nat (nat ?N mod 1000000) / 1000000)"
    by (simp only: formatTokenAmount_small [OF v v0 d small] parseAmount_rendered [OF m])
  also have "(of_nat (nat ?N div 1000000) + of_nat (nat ?N mod 1000000) / 1000000 :: rat)
          = of_nat (nat ?N) / 1000000"
    by (rule micro_split)
  also have "\<dots> = of_int ?N / 1000000" using N0 by simp
  finally have a: "parseAmount (formatTokenAmount amt d) = Some (of_int ?N / 1000000)" .
  let ?q = "of_int (v * 1000000) / of_int (10 ^ d) :: rat"
  have fl: "?N = \<lfloor>?q\<rfloor>" by (simp only: floor_divide_of_int_eq)
  have q: "?q = of_int v / 10 ^ d * 1000000" by simp
  have "of_int ?N \<le> ?q" "?q < of_int ?N + 1" unfolding fl by linarith+
  then have b: "of_int ?N / 1000000 \<le> (of_int v / 10 ^ d :: rat)"
    and c: "(of_int v / 10 ^ d :: rat) - of_int ?N / 1000000 < 1 / 1000000"
    unfolding q by (simp_all add: field_simps)
  from a b c show "parseAmount (formatTokenAmount amt d) = Some (of_int ?N / 1000000) \<and>
     of_int ?N / 1000000 \<le> (of_int v / 10 ^ d :: rat) \<and>
     (of_int v / 10 ^ d :: rat) - of_int ?N / 1000000 < 1 / 1000000" by blast
qed


lemma parse_simps:
  "BigInt_of_string ''250000000000'' = Inr 250000000000"
  "BigInt_of_string ''34359738368000002'' = Inr 34359738368000002"
  "BigInt_of_string ''100000000000000000000000'' = Inr 100000000000000000000000"
  "BigInt_of_string ''999999999999999999999999'' = Inr 999999999999999999999999"
  "BigInt_of_string ''12x'' = Inl SyntaxError"
  "BigInt_of_string ''5'' = Inr 5"
  by (simp_all add: BigInt_of_string_def trim_def isWhiteSpace_def parseDigits_def digitValue_def)

text \<open>
  An instance: 250,000 tokens of a token with 6 decimals read back as 250000.
\<close>

theorem formatTokenAmount_truncates_witness:
  "amount_toBigInt (AmountString ''250000000000'') = Inr 250000000000 \<and>
   (0::int) \<le> 250000000000 \<and> (6::nat) \<le> 22 \<and>
   (250000000000::int) * 1000000 div 10 ^ 6 < 2 ^ 52 \<and>
   parseAmount (formatTokenAmount (AmountString ''250000000000'') 6) = Some 250000"
proof -
  have h1: "amount_toBigInt (AmountString ''250000000000'') = Inr 250000000000"
    by (simp add: amount_toBigInt_def parse_simps)
  have h2: "(0::int) \<le> 250000000000" and h3: "(6::nat) \<le> 22"
    and h4: "(250000000000::int) * 1000000 div 10 ^ 6 < 2 ^ 52" by simp_all
  from formatTokenAmount_truncates [of "AmountString ''250000000000''" 250000000000 6] h1 h2 h3 h4
  have "parseAmount (formatTokenAmount (AmountString ''250000000000'') 6)
          = Some (of_int (250000000000 * 1000000 div 10 ^ 6) / 1000000)"
    by blast
  then have "parseAmount (formatTokenAmount (AmountString ''250000000000'') 6) = Some 250000"
    by simp
  with h1 h2 h3 h4 show ?thesis by blast
qed


lemma replicate_small:
  "replicate 1 x = [x]" "replicate 2 x = [x, x]" "replicate 3 x = [x, x, x]"
  "replicate 4 x = [x, x, x, x]" "replicate 5 x = [x, x, x, x, x]"
  "replicate 6 x = [x, x, x, x, x, x]"
  by (simp_all add: numeral_eq_Suc)

lemma format_big:
  "formatTokenAmount (AmountString ''34359738368000002'') 6 = ''34,359,738,368.00''"
proof -
  have a: "BigInt_of_number (js_pow10 6) = Inr 1000000" by code_simp
  have b: "bigint_div 34359738368000002000000 1000000 = Inr 34359738368000002"
    by (simp add: bigint_div_def)
  have c: "number_div (Number_of_BigInt 34359738368000002) (Fin 1000000) = Fin 34359738368"
    by code_simp
  have f: "\<lfloor>\<bar>34359738368 :: rat\<bar> * 1000000 + 1 / 2\<rfloor> = 34359738368000000"
    by (rule floor_unique) simp_all
  have d: "toLocaleString (Fin 34359738368) = ''34,359,738,368.00''"
    by (simp add: toLocaleString_micro [OF _ f] grouped_def trimFraction_def fractionDigits_def
        digitChar_def digitsOf.simps replicate_small)
  show ?thesis
    by (simp add: formatTokenAmount_def formatTokenAmount_try_def andThen_def
        amount_toBigInt_def parse_simps a b c d)
qed

text \<open>
  The claim as stated has no upper bound on the amount. 34,359,738,368.000002 tokens of a
  token with 6 decimals (raw value 34359738368000002, above \<open>10^6\<close>): the scaled integer
  exceeds \<open>2^53\<close>, its conversion to a Number rounds it to 34359738368000000, the string
  is \<open>34,359,738,368.00\<close>, and it reads back \<open>2 * 10^-6\<close> below the amount.
\<close>

theorem formatTokenAmount_error_counterexample:
  "(34359738368000002::int) \<ge> 10 ^ 6 \<and>
   parseAmount (formatTokenAmount (AmountString ''34359738368000002'') 6) = Some 34359738368 \<and>
   \<not> \<bar>(34359738368::rat) - 34359738368000002 / 10 ^ 6\<bar> \<le> 1 / 10 ^ 6"
proof -
  have p: "parseAmount ''34,359,738,368.00'' = Some 34359738368"
    by (simp add: parseAmount_def removeCommas_def parseUnsigned_def digitValue_def)
  show ?thesis by (simp add: format_big p)
qed

text \<open>
  C5. The comparison of \<open>isLargeTransfer\<close> is made on Numbers. For a stablecoin with 18
  decimals, a transfer of exactly 100000 tokens (raw value \<open>10^23\<close>) is not classified
  large: \<open>Number(10^23)\<close> is 99999999999999991611392, and its quotient by \<open>10^18\<close> rounds
  to the Number just below 100000. In the other direction, \<open>10^24 - 1\<close> raw units of a
  non-stablecoin with 18 decimals are less than 1000000 tokens and are classified large.
\<close>

theorem isLargeTransfer_at_threshold:
  "isLargeTransfer (AmountString ''100000000000000000000000'') 18 True = False \<and>
   (100000000000000000000000 :: rat) / 10 ^ 18 = 100000 \<and>
   isLargeTransfer (AmountString ''999999999999999999999999'') 18 False = True \<and>
   (999999999999999999999999 :: rat) / 10 ^ 18 < 1000000"
proof -
  have a: "isLargeTransfer (AmountBigInt 100000000000000000000000) 18 True = False"
    by code_simp
  have b: "isLargeTransfer (AmountBigInt 999999999999999999999999) 18 False = True"
    by code_simp
  have a': "isLargeTransfer (AmountString ''100000000000000000000000'') 18 True
      = isLargeTransfer (AmountBigInt 100000000000000000000000) 18 True"
    by (simp add: isLargeTransfer_def isLargeTransfer_try_def amount_toBigInt_def parse_simps)
  have b': "isLargeTransfer (AmountString ''999999999999999999999999'') 18 False
      = isLargeTransfer (AmountBigInt 999999999999999999999999) 18 False"
    by (simp add: isLargeTransfer_def isLargeTransfer_try_def amount_toBigInt_def parse_simps)
  show ?thesis by (simp add: a a' b b')
qed

text \<open>
  C10. \<open>formatTokenAmount\<close> returns a string for every input: whatever the \<open>try\<close> block
  throws, the \<open>catch\<close> block returns \<open>amount.toString()\<close>. For a string amount that is
  the input unchanged, in particular when \<open>BigInt(amount)\<close> fails and when
  \<open>BigInt(10 ** decimals)\<close> fails.
\<close>

theorem formatTokenAmount_total:
  "(formatTokenAmount_try (AmountString s) d = Inl e \<longrightarrow> formatTokenAmount (AmountString s) d = s) \<and>
   (BigInt_of_string s = Inl e \<longrightarrow> formatTokenAmount (AmountString s) d = s) \<and>
   (BigInt_of_number (js_pow10 d) = Inl e \<longrightarrow> formatTokenAmount (AmountString s) d = s) \<and>
   formatTokenAmount amt d =
     (case formatTokenAmount_try amt d of Inl err \<Rightarrow> amount_toString amt | Inr r \<Rightarrow> r)"
proof -
  have caught: "formatTokenAmount (AmountString s) d = s"
    if "formatTokenAmount_try (AmountString s) d = Inl x" for x
    using that by (simp add: formatTokenAmount_def amount_toString_def)
  have a: "formatTokenAmount_try (AmountString s) d = Inl e \<longrightarrow>
      formatTokenAmount (AmountString s) d = s"
    using caught by blast
  have b: "BigInt_of_string s = Inl e \<longrightarrow> formatTokenAmount (AmountString s) d = s"
  proof
    assume "BigInt_of_string s = Inl e"
    then have "formatTokenAmount_try (AmountString s) d = Inl e"
      by (simp add: formatTokenAmount_try_def andThen_def amount_toBigInt_def)
    then show "formatTokenAmount (AmountString s) d = s" by (rule caught)
  qed
  have c: "BigInt_of_number (js_pow10 d) = Inl e \<longrightarrow> formatTokenAmount (AmountString s) d = s"
  proof
    assume div: "BigInt_of_number (js_pow10 d) = Inl e"
    show "formatTokenAmount (AmountString s) d = s"
    proof (cases "BigInt_of_string s")
      case (Inl x)
      then have "formatTokenAmount_try (AmountString s) d = Inl x"
        by (simp add: formatTokenAmount_try_def andThen_def amount_toBigInt_def)
      then show ?thesis by (rule caught)
    next
      case (Inr v)
      with div have "formatTokenAmount_try (AmountString s) d = Inl e"
        by (simp add: formatTokenAmount_try_def andThen_def amount_toBigInt_def)
      then show ?thesis by (rule caught)
    qed
  qed
  have d: "formatTokenAmount amt d =
     (case formatTokenAmount_try amt d of Inl err \<Rightarrow> amount_toString amt | Inr r \<Rightarrow> r)"
    by (simp add: formatTokenAmount_def)
  from a b c d show ?thesis by blast
qed

text \<open>
  Instances: \<open>12x\<close> is not an integer literal; \<open>10 ** 309\<close> is \<open>Infinity\<close>, which
  \<open>BigInt\<close> refuses. Both inputs come back unchanged.
\<close>

theorem formatTokenAmount_total_witness:
  "BigInt_of_string ''12x'' = Inl SyntaxError \<and>
   formatTokenAmount (AmountString ''12x'') 6 = ''12x'' \<and>
   BigInt_of_number (js_pow10 309) = Inl RangeError \<and>
   formatTokenAmount_try (AmountString ''5'') 309 = Inl RangeError \<and>
   formatTokenAmount (AmountString ''5'') 309 = ''5''"
proof -
  have a: "BigInt_of_string ''12x'' = Inl SyntaxError" by (rule parse_simps)
  have b: "BigInt_of_number (js_pow10 309) = Inl RangeError"
    by (rule js_pow10_overflow) simp
  have c: "formatTokenAmount_try (AmountString ''5'') 309 = Inl RangeError"
    by (simp add: formatTokenAmount_try_def andThen_def amount_toBigInt_def parse_simps b)
  from formatTokenAmount_total [of "''12x''" 6 SyntaxError] a
  have r1: "formatTokenAmount (AmountString ''12x'') 6 = ''12x''" by blast
  from formatTokenAmount_total [of "''5''" 309 RangeError] b
  have r2: "formatTokenAmount (AmountString ''5'') 309 = ''5''" by blast
  from a b c r1 r2 show ?thesis by blast
qed

section \<open>Properties of the block-scan listener\<close>

subsection \<open>Batches\<close>

lemma chunks_concat: "0 < n \<Longrightarrow> concat (chunks xs n) = xs"
proof (induction xs n rule: chunks.induct)
  case (1 array chunkSize)
  show ?case
  proof (cases "array = []")
    case True
    then show ?thesis by (simp add: chunks.simps)
  next
    case False
    with 1 show ?thesis by (subst chunks.simps) simp
  qed
qed

lemma foldl_append_concat: "foldl (\<lambda>acc b. acc @ f b) acc0 bs = acc0 @ concat (map f bs)"
  by (induction bs arbitrary: acc0) simp_all

lemma concat_map_concat: "concat (map (\<lambda>b. concat (map g b)) bs) = concat (map g (concat bs))"
  by (induction bs) simp_all

lemma processBatches_flat:
  "0 < n \<Longrightarrow> processBatches items (\<lambda>batch. concat (map g batch)) n = concat (map g items)"
  by (simp add: processBatches_def foldl_append_concat concat_map_concat chunks_concat)

lemma collectEvents_flat:
  "collectEvents up cfgs a b = concat (map (contractEvents up a b) cfgs)"
  by (simp add: collectEvents_def foldl_append_concat concat_map_concat chunks_concat)

lemma contractEvents_flat:
  "contractEvents up a b c =
     (if newContract up c = None
      then concat (map (queryEvents up a b c) (getEventNamesFromConfig c)) else [])"
  by (auto simp: contractEvents_def processBatches_flat split: option.splits)


subsection \<open>Sorting\<close>

lemma compareEvents_le:
  "compareEvents a b \<le> 0 \<longleftrightarrow>
     ce_blockNumber a < ce_blockNumber b \<or>
     (ce_blockNumber a = ce_blockNumber b \<and> ce_logIndex a \<le> ce_logIndex b)"
  by (auto simp: compareEvents_def)

lemma set_insertEvent: "set (insertEvent e xs) = insert e (set xs)"
  by (induction xs) auto

lemma set_sortEvents: "set (sortEvents xs) = set xs"
  by (induction xs) (simp_all add: sortEvents_def set_insertEvent)

lemma sorted_insertEvent:
  "sorted_wrt (\<lambda>a b. compareEvents a b \<le> 0) xs \<Longrightarrow>
   sorted_wrt (\<lambda>a b. compareEvents a b \<le> 0) (insertEvent e xs)"
proof (induction xs)
  case Nil
  then show ?case by simp
next
  case (Cons x xs)
  show ?case
  proof (cases "compareEvents e x \<le> 0")
    case True
    have "compareEvents e y \<le> 0" if "y \<in> set xs" for y
    proof -
      from Cons.prems that have "compareEvents x y \<le> 0" by simp
      with True show ?thesis unfolding compareEvents_le by linarith
    qed
    with True Cons.prems show ?thesis by simp
  next
    case False
    then have xe: "compareEvents x e \<le> 0" unfolding compareEvents_le by linarith
    from Cons have "sorted_wrt (\<lambda>a b. compareEvents a b \<le> 0) (insertEvent e xs)" by simp
    with False xe Cons.prems show ?thesis by (simp add: set_insertEvent)
  qed
qed

lemma sorted_sortEvents: "sorted_wrt (\<lambda>a b. compareEvents a b \<le> 0) (sortEvents xs)"
  by (induction xs) (simp_all add: sortEvents_def sorted_insertEvent)

subsection \<open>Timestamps\<close>

lemma foldl_upd:
  "foldl (\<lambda>m b. m(b \<mapsto> f b)) m bs x = (if x \<in> set bs then Some (f x) else m x)"
  by (induction bs arbitrary: m) auto

lemma foldl_upd_batches:
  "foldl (\<lambda>m batch. foldl (\<lambda>m' b. m'(b \<mapsto> f b)) m batch) m bss x
     = (if x \<in> set (concat bss) then Some (f x) else m x)"
  by (induction bss arbitrary: m) (auto simp: foldl_upd)

lemma blockTimestamps_lookup:
  "b \<in> set blocks \<Longrightarrow> blockTimestamps up blocks b = Some (blockTimestamp up b)"
  by (simp add: blockTimestamps_def foldl_upd_batches chunks_concat)

lemma set_uniqueBlocks: "set (uniqueBlocks evs) = ce_blockNumber ` set evs"
  by (simp add: uniqueBlocks_def)

lemma getAllContractEventsInRange_eq:
  "getAllContractEventsInRange up cfgs a b =
     map (\<lambda>e. e\<lparr>ce_timestamp := blockTimestamp up (ce_blockNumber e) * 1000\<rparr>)
       (sortEvents (collectEvents up cfgs a b))"
  unfolding getAllContractEventsInRange_def Let_def
  by (rule map_cong) (simp_all add: blockTimestamps_lookup set_uniqueBlocks)

subsection \<open>The event loop\<close>

lemma processEvents_running:
  "(\<And>j. running j) \<Longrightarrow>
   processEvents cid up running i es = List.map_filter (processContractEvent cid up) es"
  by (induction es arbitrary: i) (simp_all add: List.map_filter_simps split: option.splits)

lemma processEvents_prefix:
  "\<exists>k. processEvents cid up running i es
         = List.map_filter (processContractEvent cid up) (take k es)"
proof (induction es arbitrary: i)
  case Nil
  then show ?case by (simp add: List.map_filter_simps)
next
  case (Cons e es)
  show ?case
  proof (cases "running i")
    case False
    then have "processEvents cid up running i (e # es)
        = List.map_filter (processContractEvent cid up) (take 0 (e # es))"
      by (simp add: List.map_filter_simps)
    then show ?thesis by blast
  next
    case True
    from Cons [of "Suc i"] obtain k where
      k: "processEvents cid up running (Suc i) es
            = List.map_filter (processContractEvent cid up) (take k es)" by blast
    from True k have "processEvents cid up running i (e # es)
        = List.map_filter (processContractEvent cid up) (take (Suc k) (e # es))"
      by (simp add: List.map_filter_simps split: option.splits)
    then show ?thesis by blast
  qed
qed

lemma processEvents_stopped:
  "\<not> running (i + j) \<Longrightarrow>
   processEvents cid up running i es = processEvents cid up running i (take j es)"
proof (induction es arbitrary: i j)
  case Nil
  then show ?case by simp
next
  case (Cons e es)
  show ?case
  proof (cases j)
    case 0
    with Cons.prems show ?thesis by simp
  next
    case (Suc j')
    with Cons.prems have "\<not> running (Suc i + j')" by simp
    from Cons.IH [OF this] Suc show ?thesis by simp
  qed
qed

subsection \<open>Order of the dispatched events\<close>

lemma processContractEvent_fields:
  assumes "processContractEvent cid up e = Some ev"
  shows "blockNumber ev = ce_blockNumber e" "eventLogIndex ev = Some (ce_logIndex e)"
  using assms
  by (auto simp: processContractEvent_def eventLogIndex_def split: sum.splits option.splits)

lemma ascending_processed:
  assumes "processContractEvent cid up e1 = Some ev1" "processContractEvent cid up e2 = Some ev2"
    and "compareEvents e1 e2 \<le> 0"
  shows "ascending ev1 ev2"
  using assms(3) processContractEvent_fields [OF assms(1)] processContractEvent_fields [OF assms(2)]
  by (simp add: ascending_def compareEvents_le)

lemma sorted_map_filter:
  assumes "sorted_wrt (\<lambda>a b. compareEvents a b \<le> 0) es"
  shows "sorted_wrt ascending (List.map_filter (processContractEvent cid up) es)"
  using assms
proof (induction es)
  case Nil
  then show ?case by (simp add: List.map_filter_simps)
next
  case (Cons e es)
  then have IH: "sorted_wrt ascending (List.map_filter (processContractEvent cid up) es)" by simp
  show ?case
  proof (cases "processContractEvent cid up e")
    case None
    with IH show ?thesis by (simp add: List.map_filter_simps)
  next
    case (Some ev)
    have "ascending ev y" if "y \<in> set (List.map_filter (processContractEvent cid up) es)" for y
    proof -
      from that obtain e' where e': "e' \<in> set es" "processContractEvent cid up e' = Some y"
        by (auto simp: List.map_filter_def)
      with Cons.prems have "compareEvents e e' \<le> 0" by simp
      from ascending_processed [OF Some e'(2) this] show ?thesis .
    qed
    with IH Some show ?thesis by (simp add: List.map_filter_simps)
  qed
qed

lemma compareEvents_stamp:
  "compareEvents (a\<lparr>ce_timestamp := s\<rparr>) (b\<lparr>ce_timestamp := t\<rparr>) = compareEvents a b"
  by (simp add: compareEvents_def)

lemma sorted_collected:
  "sorted_wrt (\<lambda>a b. compareEvents a b \<le> 0) (getAllContractEventsInRange up cfgs a b)"
  unfolding getAllContractEventsInRange_eq
  by (simp add: sorted_wrt_map compareEvents_stamp sorted_sortEvents)

lemma sorted_processEvents:
  "sorted_wrt ascending
     (processEvents cid up running i (getAllContractEventsInRange up cfgs a b))"
proof -
  obtain k where k: "processEvents cid up running i (getAllContractEventsInRange up cfgs a b)
      = List.map_filter (processContractEvent cid up)
          (take k (getAllContractEventsInRange up cfgs a b))"
    using processEvents_prefix by blast
  have "sorted_wrt (\<lambda>a b. compareEvents a b \<le> 0) (take k (getAllContractEventsInRange up cfgs a b))"
    by (rule sorted_wrt_take) (rule sorted_collected)
  then show ?thesis unfolding k by (rule sorted_map_filter)
qed

subsection \<open>The collected events are upstream's logs\<close>

lemma collectEvents_spec:
  "collectEvents up cfgs a b
     = map (\<lambda>(c, n, l). toContractEvent up c n l) (spec_matchingLogs up cfgs a b)"
proof -
  have q: "concat (map (queryEvents up a b c) ns)
      = map (\<lambda>(c, n, l). toContractEvent up c n l)
          (concat (map (\<lambda>name. case queryFilter up c name a b of
                           Inl err \<Rightarrow> []
                         | Inr found \<Rightarrow> map (\<lambda>event. (c, name, event)) found)
                     (filter (\<lambda>name. name \<in> set (cc_abi c)) ns)))" for c ns
    by (induction ns) (auto simp: queryEvents_def split: sum.splits)
  have c: "contractEvents up a b c
      = map (\<lambda>(c, n, l). toContractEvent up c n l)
          (concat (map (\<lambda>name. case queryFilter up c name a b of
                           Inl err \<Rightarrow> []
                         | Inr found \<Rightarrow> map (\<lambda>event. (c, name, event)) found)
                     (filter (\<lambda>name. name \<in> set (cc_abi c) \<and> newContract up c = None)
                        (getEventNamesFromConfig c))))" for c
    by (cases "newContract up c") (simp_all add: contractEvents_flat q)
  show ?thesis
    unfolding collectEvents_flat spec_matchingLogs_def
    by (induction cfgs) (simp_all add: c)
qed

lemma set_map_filter: "set (List.map_filter f xs) = {y. \<exists>x \<in> set xs. f x = Some y}"
  by (induction xs) (auto simp: List.map_filter_simps split: option.splits)

lemma stamped_spec:
  "processContractEvent cid up
     ((case x of (c, n, l) \<Rightarrow> toContractEvent up c n l)
        \<lparr>ce_timestamp := blockTimestamp up
           (ce_blockNumber (case x of (c, n, l) \<Rightarrow> toContractEvent up c n l)) * 1000\<rparr>)
     = spec_eventOfLog cid up x"
  by (cases x) (simp add: spec_eventOfLog_def toContractEvent_def)

lemma enqueued_set:
  "set (List.map_filter (processContractEvent cid up) (getAllContractEventsInRange up cfgs a b))
     = set (List.map_filter (spec_eventOfLog cid up) (spec_matchingLogs up cfgs a b))"
proof -
  let ?g = "\<lambda>(c, n, l). toContractEvent up c n l"
  let ?stamp = "\<lambda>e. e\<lparr>ce_timestamp := blockTimestamp up (ce_blockNumber e) * 1000\<rparr>"
  let ?xs = "spec_matchingLogs up cfgs a b"
  have "set (List.map_filter (processContractEvent cid up) (getAllContractEventsInRange up cfgs a b))
      = {y. \<exists>e \<in> set (map ?stamp (sortEvents (map ?g ?xs))). processContractEvent cid up e = Some y}"
    unfolding getAllContractEventsInRange_eq collectEvents_spec by (rule set_map_filter)
  also have "\<dots> = {y. \<exists>x \<in> set ?xs. processContractEvent cid up (?stamp (?g x)) = Some y}"
    by (simp add: set_sortEvents)
  also have "\<dots> = {y. \<exists>x \<in> set ?xs. spec_eventOfLog cid up x = Some y}"
    by (simp only: stamped_spec)
  also have "\<dots> = set (List.map_filter (spec_eventOfLog cid up) ?xs)"
    by (rule set_map_filter [symmetric])
  finally show ?thesis .
qed


subsection \<open>A tick\<close>

lemma enqueuedBy_trace [simp]: "enqueuedBy (map Enqueue evs @ [SetCursor n]) = evs"
  by (induction evs) (simp_all add: enqueuedBy_def)

lemma enqueuedBy_Nil [simp]: "enqueuedBy [] = []"
  by (simp add: enqueuedBy_def)

lemma sorted_processBlockRange:
  "sorted_wrt ascending (processBlockRangeWithBatching st up running a b)"
  by (simp add: processBlockRangeWithBatching_def sorted_processEvents)

lemma sorted_tick: "sorted_wrt ascending (enqueuedBy (fst (scanForNewBlocks up running st)))"
  by (simp add: scanForNewBlocks_def Let_def sorted_processBlockRange split: sum.splits)

lemma spec_matchingLogs_Nil [simp]: "spec_matchingLogs up [] a b = []"
  by (simp add: spec_matchingLogs_def)

lemma processBlockRange_set:
  assumes "\<And>i. running i"
  shows "set (processBlockRangeWithBatching st up running a b)
     = set (List.map_filter (spec_eventOfLog (ls_chainId st) up)
              (spec_matchingLogs up (ls_contractConfigs st) a b))"
proof (cases "ls_contractConfigs st = []")
  case True
  then show ?thesis by (simp add: processBlockRangeWithBatching_def List.map_filter_simps)
next
  case False
  then show ?thesis
    by (simp add: processBlockRangeWithBatching_def processEvents_running [OF assms] enqueued_set)
qed

lemma receipt_decides:
  "(\<exists>ev. spec_eventOfLog cid up (c, n, l) = Some ev)
     = (\<exists>r. getTransactionReceipt up (lg_transactionHash l) = Inr (Some r))"
  by (auto simp: spec_eventOfLog_def processContractEvent_def toContractEvent_def
      split: sum.splits option.splits)

lemma tick_window:
  assumes "getBlockNumber up = Inr latest" "ls_lastProcessedBlock st < latest"
  shows "scanForNewBlocks up running st =
     (map Enqueue (processBlockRangeWithBatching st up running (ls_lastProcessedBlock st + 1)
         (min latest (ls_lastProcessedBlock st + 1 + ls_blocksPerScan st - 1)))
       @ [SetCursor (min latest (ls_lastProcessedBlock st + 1 + ls_blocksPerScan st - 1))],
      st\<lparr>ls_lastProcessedBlock := min latest (ls_lastProcessedBlock st + 1 + ls_blocksPerScan st - 1)\<rparr>)"
  using assms by (simp add: scanForNewBlocks_def Let_def)

text \<open>
  C1, as amended. The events a tick enqueues are in ascending \<open>(blockNumber, logIndex)\<close>
  order, whatever upstream answers and whenever the listener is stopped. For a tick
  over the range \<open>[a, b]\<close> during which the listener is not stopped, the set of events
  enqueued is the set of the events standing for the logs upstream returns for the
  monitored filters over \<open>[a, b]\<close>, of those logs whose transaction receipt upstream
  returns: a log stands for an event exactly when the request of its receipt resolves
  to a receipt.
\<close>

theorem tick_enqueues_logs_with_receipt:
  "sorted_wrt ascending (enqueuedBy (fst (scanForNewBlocks up running st))) \<and>
   (getBlockNumber up = Inr latest \<and> ls_lastProcessedBlock st < latest \<and> (\<forall>i. running i) \<longrightarrow>
      set (enqueuedBy (fst (scanForNewBlocks up running st)))
        = set (List.map_filter (spec_eventOfLog (ls_chainId st) up)
                 (spec_matchingLogs up (ls_contractConfigs st)
                    (ls_lastProcessedBlock st + 1)
                    (min latest (ls_lastProcessedBlock st + 1 + ls_blocksPerScan st - 1))))) \<and>
   ((\<exists>ev. spec_eventOfLog cid up (c, n, l) = Some ev)
      = (\<exists>r. getTransactionReceipt up (lg_transactionHash l) = Inr (Some r)))"
proof (intro conjI impI)
  show "sorted_wrt ascending (enqueuedBy (fst (scanForNewBlocks up running st)))"
    by (rule sorted_tick)
next
  assume h: "getBlockNumber up = Inr latest \<and> ls_lastProcessedBlock st < latest \<and> (\<forall>i. running i)"
  then have r: "\<And>i. running i" by simp
  from h have w: "getBlockNumber up = Inr latest" "ls_lastProcessedBlock st < latest" by simp_all
  show "set (enqueuedBy (fst (scanForNewBlocks up running st)))
        = set (List.map_filter (spec_eventOfLog (ls_chainId st) up)
                 (spec_matchingLogs up (ls_contractConfigs st)
                    (ls_lastProcessedBlock st + 1)
                    (min latest (ls_lastProcessedBlock st + 1 + ls_blocksPerScan st - 1))))"
    unfolding tick_window [OF w] by (simp only: fst_conv enqueuedBy_trace processBlockRange_set [OF r])
next
  show "(\<exists>ev. spec_eventOfLog cid up (c, n, l) = Some ev)
      = (\<exists>r. getTransactionReceipt up (lg_transactionHash l) = Inr (Some r))"
    by (rule receipt_decides)
qed


subsection \<open>The sample tick\<close>

lemma sampleConfig_fields:
  "cc_events sampleConfig = [TRANSFER_EVENT_SIGNATURE]" "cc_abi sampleConfig = [''Transfer'']"
  "cc_address sampleConfig = ''0xaaa''"
  by (simp_all add: sampleConfig_def)

lemma sampleLog_fields:
  "lg_blockNumber (sampleLog b i h) = b" "lg_index (sampleLog b i h) = i"
  "lg_transactionHash (sampleLog b i h) = h" "lg_transactionIndex (sampleLog b i h) = 0"
  by (simp_all add: sampleLog_def)

lemma sampleUpstream_fields:
  "getBlockNumber (sampleUpstream r) = Inr 12"
  "newContract (sampleUpstream r) c = None"
  "queryFilter (sampleUpstream r) c n a b =
     Inr (filter (\<lambda>l. a \<le> lg_blockNumber l \<and> lg_blockNumber l \<le> b)
            [sampleLog 11 1 ''0xb'', sampleLog 11 0 ''0xa'', sampleLog 12 0 ''0xc''])"
  "getTransactionReceipt (sampleUpstream r) = r"
  "getBlock (sampleUpstream r) b = Inr (Some (1700000000 + b))"
  by (simp_all add: sampleUpstream_def)

lemma sampleListener_fields:
  "ls_chainId sampleListener = 1" "ls_lastProcessedBlock sampleListener = 10"
  "ls_blocksPerScan sampleListener = 50" "ls_contractConfigs sampleListener = [sampleConfig]"
  by (simp_all add: sampleListener_def)

lemma sample_names: "getEventNamesFromConfig sampleConfig = [''Transfer'']"
  by (simp add: getEventNamesFromConfig_def knownEvents_def sampleConfig_fields
      List.map_filter_simps)

lemma sample_logs:
  "spec_matchingLogs (sampleUpstream r) [sampleConfig] 11 12 =
     [(sampleConfig, ''Transfer'', sampleLog 11 1 ''0xb''),
      (sampleConfig, ''Transfer'', sampleLog 11 0 ''0xa''),
      (sampleConfig, ''Transfer'', sampleLog 12 0 ''0xc'')]"
  by (simp add: spec_matchingLogs_def sample_names sampleConfig_fields sampleUpstream_fields
      sampleLog_fields)

lemma logOf_event:
  "spec_eventOfLog cid up (c, n, l) = Some ev \<Longrightarrow>
   logOf ev = (lg_blockNumber l, Some (lg_index l), lg_transactionHash l)"
  by (auto simp: spec_eventOfLog_def processContractEvent_def toContractEvent_def logOf_def
      eventLogIndex_def split: sum.splits option.splits)

lemma sample_collected:
  "getAllContractEventsInRange (sampleUpstream r) [sampleConfig] 11 12 =
     map (\<lambda>(b, i, h). (toContractEvent (sampleUpstream r) sampleConfig ''Transfer'' (sampleLog b i h))
            \<lparr>ce_timestamp := (1700000000 + b) * 1000\<rparr>)
       [(11, 0, ''0xa''), (11, 1, ''0xb''), (12, 0, ''0xc'')]"
  by (simp add: getAllContractEventsInRange_eq collectEvents_spec sample_logs sortEvents_def
      compareEvents_def toContractEvent_def sampleLog_fields blockTimestamp_def sampleUpstream_fields)


lemma map_logOf_processed:
  "map logOf (List.map_filter (processContractEvent cid up) es)
     = map (\<lambda>e. (ce_blockNumber e, Some (ce_logIndex e), ce_transactionHash e))
         (filter (\<lambda>e. receiptFound up (ce_transactionHash e)) es)"
  by (induction es)
    (auto simp: List.map_filter_simps processContractEvent_def receiptFound_def logOf_def
      eventLogIndex_def split: sum.splits option.splits)

lemma map_logOf_spec:
  "map logOf (List.map_filter (spec_eventOfLog cid up) xs)
     = map (\<lambda>(c, n, l). (lg_blockNumber l, Some (lg_index l), lg_transactionHash l))
         (filter (\<lambda>(c, n, l). receiptFound up (lg_transactionHash l)) xs)"
  by (induction xs)
    (auto simp: List.map_filter_simps spec_eventOfLog_def processContractEvent_def
      toContractEvent_def receiptFound_def logOf_def eventLogIndex_def
      split: sum.splits option.splits)

lemma receiptFound_sample:
  "receiptFound (sampleUpstream receiptsFound) h = True"
  "receiptFound (sampleUpstream receiptMissing) h = (h \<noteq> ''0xa'')"
  by (simp_all add: receiptFound_def sampleUpstream_fields receiptsFound_def receiptMissing_def)

lemma sample_tick:
  "scanForNewBlocks (sampleUpstream r) alwaysRunning sampleListener =
     (map Enqueue (List.map_filter (processContractEvent 1 (sampleUpstream r))
         (getAllContractEventsInRange (sampleUpstream r) [sampleConfig] 11 12)) @ [SetCursor 12],
      sampleListener\<lparr>ls_lastProcessedBlock := 12\<rparr>)"
proof -
  have r: "\<And>i. alwaysRunning i" by (simp add: alwaysRunning_def)
  have w: "getBlockNumber (sampleUpstream r) = Inr 12" "ls_lastProcessedBlock sampleListener < 12"
    by (simp_all add: sampleUpstream_fields sampleListener_fields)
  show ?thesis
    unfolding tick_window [OF w]
    by (simp add: processBlockRangeWithBatching_def sampleListener_fields
        processEvents_running [OF r])
qed

text \<open>
  The claim as stated counts every log upstream returns. A tick over blocks 11 to 12
  that is never stopped: upstream returns three Transfer logs of the monitored
  contract, and no receipt (\<open>null\<close>) for the transaction of the log with index 0 of
  block 11. That log is returned for the monitored filter and no event is enqueued for
  it: the events enqueued stand for the two other logs.
\<close>

theorem log_without_receipt_counterexample:
  "getBlockNumber (sampleUpstream receiptMissing) = Inr 12 \<and>
   ls_lastProcessedBlock sampleListener = 10 \<and>
   map (\<lambda>x. lg_transactionHash (snd (snd x)))
     (spec_matchingLogs (sampleUpstream receiptMissing) (ls_contractConfigs sampleListener) 11 12)
     = [''0xb'', ''0xa'', ''0xc''] \<and>
   map logOf (enqueuedBy (fst (scanForNewBlocks (sampleUpstream receiptMissing) alwaysRunning
        sampleListener)))
     = [(11, Some 1, ''0xb''), (12, Some 0, ''0xc'')]"
proof -
  let ?U = "sampleUpstream receiptMissing"
  have "map logOf (List.map_filter (processContractEvent 1 ?U)
      (getAllContractEventsInRange ?U [sampleConfig] 11 12))
    = [(11, Some 1, ''0xb''), (12, Some 0, ''0xc'')]"
    unfolding map_logOf_processed sample_collected
    by (simp add: receiptFound_sample toContractEvent_def sampleLog_fields)
  then have e: "map logOf (enqueuedBy (fst (scanForNewBlocks ?U alwaysRunning sampleListener)))
    = [(11, Some 1, ''0xb''), (12, Some 0, ''0xc'')]"
    by (simp only: sample_tick fst_conv enqueuedBy_trace)
  have l: "map (\<lambda>x. lg_transactionHash (snd (snd x)))
     (spec_matchingLogs ?U (ls_contractConfigs sampleListener) 11 12) = [''0xb'', ''0xa'', ''0xc'']"
    by (simp add: sampleListener_fields sample_logs sampleLog_fields)
  from e l show ?thesis by (simp add: sampleUpstream_fields sampleListener_fields)
qed

text \<open>
  An instance: with a receipt for every transaction, the tick over blocks 11 to 12
  enqueues the three logs, which upstream returned out of order, in ascending order.
\<close>

theorem tick_enqueues_logs_with_receipt_witness:
  "getBlockNumber (sampleUpstream receiptsFound) = Inr 12 \<and>
   ls_lastProcessedBlock sampleListener < 12 \<and> (\<forall>i. alwaysRunning i) \<and>
   sorted_wrt ascending (enqueuedBy (fst (scanForNewBlocks (sampleUpstream receiptsFound)
        alwaysRunning sampleListener))) \<and>
   logOf ` set (enqueuedBy (fst (scanForNewBlocks (sampleUpstream receiptsFound) alwaysRunning
        sampleListener)))
     = {(11, Some 0, ''0xa''), (11, Some 1, ''0xb''), (12, Some 0, ''0xc'')}"
proof -
  let ?U = "sampleUpstream receiptsFound"
  let ?E = "enqueuedBy (fst (scanForNewBlocks ?U alwaysRunning sampleListener))"
  have h: "getBlockNumber ?U = Inr 12 \<and> ls_lastProcessedBlock sampleListener < 12 \<and>
      (\<forall>i. alwaysRunning i)"
    by (simp add: sampleUpstream_fields sampleListener_fields alwaysRunning_def)
  note t = tick_enqueues_logs_with_receipt
    [where up = ?U and running = alwaysRunning and st = sampleListener and latest = 12]
  from t have s: "sorted_wrt ascending ?E" by blast
  from t h have "set ?E = set (List.map_filter (spec_eventOfLog 1 ?U)
      (spec_matchingLogs ?U [sampleConfig] 11 12))"
    by (simp add: sampleListener_fields)
  then have "logOf ` set ?E = set (map logOf (List.map_filter (spec_eventOfLog 1 ?U)
      (spec_matchingLogs ?U [sampleConfig] 11 12)))"
    by simp
  also have "\<dots> = {(11, Some 0, ''0xa''), (11, Some 1, ''0xb''), (12, Some 0, ''0xc'')}"
    unfolding map_logOf_spec sample_logs
    by (auto simp: receiptFound_sample sampleLog_fields)
  finally show ?thesis using h s by blast
qed

lemma processEvents_stopped_prefix:
  "\<not> running (i + j) \<Longrightarrow>
   \<exists>k\<le>j. processEvents cid up running i es
            = List.map_filter (processContractEvent cid up) (take k es)"
proof (induction es arbitrary: i j)
  case Nil
  show ?case by (intro exI [of _ 0]) (simp add: List.map_filter_simps)
next
  case (Cons e es)
  show ?case
  proof (cases "running i")
    case False
    then have "processEvents cid up running i (e # es)
        = List.map_filter (processContractEvent cid up) (take 0 (e # es))"
      by (simp add: List.map_filter_simps)
    then show ?thesis by blast
  next
    case True
    with Cons.prems obtain j' where j: "j = Suc j'" by (cases j) auto
    with Cons.prems have "\<not> running (Suc i + j')" by simp
    from Cons.IH [OF this] obtain k where k: "k \<le> j'"
      "processEvents cid up running (Suc i) es
         = List.map_filter (processContractEvent cid up) (take k es)" by blast
    from True k(2) have "processEvents cid up running i (e # es)
        = List.map_filter (processContractEvent cid up) (take (Suc k) (e # es))"
      by (simp add: List.map_filter_simps split: option.splits)
    with k(1) j show ?thesis by (intro exI [of _ "Suc k"]) simp
  qed
qed

lemma length_map_filter: "length (List.map_filter f xs) \<le> length xs"
  by (induction xs) (auto simp: List.map_filter_simps split: option.splits)

text \<open>
  C2, as amended. For a tick with a window \<open>[from, to]\<close>: the assignment to the cursor is
  the last thing the tick does, after all its calls of \<open>dispatchEvent\<close>. When the
  listener is not stopped during the tick, the events enqueued before it are all the
  events collected for the range whose receipt upstream returns (the others are
  skipped and do not hold the cursor back), and the cursor is set to \<open>to\<close>. When the
  event loop finds the listener stopped at its \<open>j\<close>-th iteration, the events enqueued
  are those of at most the first \<open>j\<close> collected events: none is enqueued afterwards.
\<close>

theorem cursor_assigned_after_enqueues:
  "getBlockNumber up = Inr latest \<and> ls_lastProcessedBlock st < latest \<longrightarrow>
     (let endBlock = min latest (ls_lastProcessedBlock st + 1 + ls_blocksPerScan st - 1);
          collected = (if ls_contractConfigs st = [] then []
                       else getAllContractEventsInRange up (ls_contractConfigs st)
                              (ls_lastProcessedBlock st + 1) endBlock);
          tick = scanForNewBlocks up running st
      in (\<exists>evs c. fst tick = map Enqueue evs @ [SetCursor c]) \<and>
         ((\<forall>i. running i) \<longrightarrow>
            fst tick = map Enqueue (List.map_filter (processContractEvent (ls_chainId st) up)
                                      collected) @ [SetCursor endBlock] \<and>
            ls_lastProcessedBlock (snd tick) = endBlock) \<and>
         (\<forall>j. \<not> running j \<longrightarrow>
            (\<exists>k\<le>j. enqueuedBy (fst tick)
                      = List.map_filter (processContractEvent (ls_chainId st) up)
                          (take k collected))))"
proof (intro impI, elim conjE)
  assume w: "getBlockNumber up = Inr latest" "ls_lastProcessedBlock st < latest"
  let ?endBlock = "min latest (ls_lastProcessedBlock st + 1 + ls_blocksPerScan st - 1)"
  let ?collected = "if ls_contractConfigs st = [] then []
                    else getAllContractEventsInRange up (ls_contractConfigs st)
                           (ls_lastProcessedBlock st + 1) ?endBlock"
  let ?tick = "scanForNewBlocks up running st"
  have range: "processBlockRangeWithBatching st up running (ls_lastProcessedBlock st + 1) ?endBlock
      = processEvents (ls_chainId st) up running 0 ?collected"
    by (simp add: processBlockRangeWithBatching_def)
  have t: "fst ?tick = map Enqueue (processEvents (ls_chainId st) up running 0 ?collected)
      @ [SetCursor ?endBlock]"
    and c: "ls_lastProcessedBlock (snd ?tick) = ?endBlock"
    unfolding tick_window [OF w] range by simp_all
  have a: "\<exists>evs c. fst ?tick = map Enqueue evs @ [SetCursor c]" using t by blast
  have b: "(\<forall>i. running i) \<longrightarrow>
      fst ?tick = map Enqueue (List.map_filter (processContractEvent (ls_chainId st) up)
                                 ?collected) @ [SetCursor ?endBlock] \<and>
      ls_lastProcessedBlock (snd ?tick) = ?endBlock"
  proof
    assume "\<forall>i. running i"
    then have r: "\<And>i. running i" by simp
    show "fst ?tick = map Enqueue (List.map_filter (processContractEvent (ls_chainId st) up)
                                 ?collected) @ [SetCursor ?endBlock] \<and>
      ls_lastProcessedBlock (snd ?tick) = ?endBlock"
      using t c by (simp only: processEvents_running [OF r])
  qed
  have s: "\<forall>j. \<not> running j \<longrightarrow>
      (\<exists>k\<le>j. enqueuedBy (fst ?tick)
                = List.map_filter (processContractEvent (ls_chainId st) up) (take k ?collected))"
  proof (intro allI impI)
    fix j
    assume "\<not> running j"
    then have "\<not> running (0 + j)" by simp
    from processEvents_stopped_prefix [where running = running and i = 0 and j = j, OF this]
    show "\<exists>k\<le>j. enqueuedBy (fst ?tick)
                = List.map_filter (processContractEvent (ls_chainId st) up) (take k ?collected)"
      unfolding t enqueuedBy_trace .
  qed
  from a b s show "let endBlock = ?endBlock; collected = (if ls_contractConfigs st = [] then []
                       else getAllContractEventsInRange up (ls_contractConfigs st)
                              (ls_lastProcessedBlock st + 1) endBlock);
          tick = scanForNewBlocks up running st
      in (\<exists>evs c. fst tick = map Enqueue evs @ [SetCursor c]) \<and>
         ((\<forall>i. running i) \<longrightarrow>
            fst tick = map Enqueue (List.map_filter (processContractEvent (ls_chainId st) up)
                                      collected) @ [SetCursor endBlock] \<and>
            ls_lastProcessedBlock (snd tick) = endBlock) \<and>
         (\<forall>j. \<not> running j \<longrightarrow>
            (\<exists>k\<le>j. enqueuedBy (fst tick)
                      = List.map_filter (processContractEvent (ls_chainId st) up)
                          (take k collected)))"
    unfolding Let_def by blast
qed


lemma effectKey_trace:
  "map effectKey (map Enqueue evs @ [SetCursor n]) = map Inl (map logOf evs) @ [Inr n]"
  by (simp add: effectKey_def)

lemma sample_processed:
  "map logOf (List.map_filter (processContractEvent 1 (sampleUpstream r))
      (getAllContractEventsInRange (sampleUpstream r) [sampleConfig] 11 12))
    = map (\<lambda>(b, i, h). (b, Some i, h))
        (filter (\<lambda>(b, i, h). receiptFound (sampleUpstream r) h)
           [(11, 0, ''0xa''), (11, 1, ''0xb''), (12, 0, ''0xc'')])"
  unfolding map_logOf_processed sample_collected
  by (simp add: toContractEvent_def sampleLog_fields)

text \<open>
  An instance: with a receipt for every transaction and no stop, the tick over blocks
  11 to 12 enqueues the three events and then sets the cursor to 12; stopped at the
  head of the second iteration, it enqueues at most one event.
\<close>

theorem cursor_assigned_after_enqueues_witness:
  "getBlockNumber (sampleUpstream receiptsFound) = Inr 12 \<and>
   ls_lastProcessedBlock sampleListener < 12 \<and> (\<forall>i. alwaysRunning i) \<and> \<not> stoppedAt 1 1 \<and>
   map effectKey (fst (scanForNewBlocks (sampleUpstream receiptsFound) alwaysRunning
        sampleListener))
     = [Inl (11, Some 0, ''0xa''), Inl (11, Some 1, ''0xb''), Inl (12, Some 0, ''0xc''), Inr 12] \<and>
   ls_lastProcessedBlock (snd (scanForNewBlocks (sampleUpstream receiptsFound) alwaysRunning
        sampleListener)) = 12 \<and>
   length (enqueuedBy (fst (scanForNewBlocks (sampleUpstream receiptsFound) (stoppedAt 1)
        sampleListener))) \<le> 1"
proof -
  let ?U = "sampleUpstream receiptsFound"
  let ?collected = "getAllContractEventsInRange ?U [sampleConfig] 11 12"
  have h: "getBlockNumber ?U = Inr 12 \<and> ls_lastProcessedBlock sampleListener < 12"
    by (simp add: sampleUpstream_fields sampleListener_fields)
  have r: "\<forall>i. alwaysRunning i" by (simp add: alwaysRunning_def)
  have n: "\<not> stoppedAt 1 1" by (simp add: stoppedAt_def)
  from cursor_assigned_after_enqueues
    [where up = ?U and running = alwaysRunning and st = sampleListener and latest = 12] h r
  have f: "fst (scanForNewBlocks ?U alwaysRunning sampleListener)
      = map Enqueue (List.map_filter (processContractEvent 1 ?U) ?collected) @ [SetCursor 12]"
    and c: "ls_lastProcessedBlock (snd (scanForNewBlocks ?U alwaysRunning sampleListener)) = 12"
    by (simp_all add: Let_def sampleListener_fields)
  have k: "map effectKey (fst (scanForNewBlocks ?U alwaysRunning sampleListener))
     = [Inl (11, Some 0, ''0xa''), Inl (11, Some 1, ''0xb''), Inl (12, Some 0, ''0xc''), Inr 12]"
    unfolding f effectKey_trace sample_processed by (simp add: receiptFound_sample)
  from cursor_assigned_after_enqueues
    [where up = ?U and running = "stoppedAt 1" and st = sampleListener and latest = 12] h n
  obtain j where j: "j \<le> 1"
    "enqueuedBy (fst (scanForNewBlocks ?U (stoppedAt 1) sampleListener))
       = List.map_filter (processContractEvent 1 ?U) (take j ?collected)"
    by (auto simp: Let_def sampleListener_fields)
  have "length (List.map_filter (processContractEvent 1 ?U) (take j ?collected))
        \<le> length (take j ?collected)" by (rule length_map_filter)
  also have "\<dots> \<le> 1" using j(1) by simp
  finally have s: "length (enqueuedBy (fst (scanForNewBlocks ?U (stoppedAt 1) sampleListener))) \<le> 1"
    by (simp only: j(2))
  from h r n k c s show ?thesis by blast
qed

text \<open>
  The claim as stated lets no event behind the cursor. The tick over blocks 11 to 12
  with no receipt for the log with index 0 of block 11, never stopped: the log is
  returned for the monitored filter, the tick enqueues the two other events and sets
  the cursor to 12, past block 11, one of whose events has not been enqueued.
\<close>

theorem cursor_passes_skipped_log_counterexample:
  "map effectKey (fst (scanForNewBlocks (sampleUpstream receiptMissing) alwaysRunning
        sampleListener))
     = [Inl (11, Some 1, ''0xb''), Inl (12, Some 0, ''0xc''), Inr 12] \<and>
   ls_lastProcessedBlock (snd (scanForNewBlocks (sampleUpstream receiptMissing) alwaysRunning
        sampleListener)) = 12 \<and>
   (sampleConfig, ''Transfer'', sampleLog 11 0 ''0xa'')
     \<in> set (spec_matchingLogs (sampleUpstream receiptMissing)
              (ls_contractConfigs sampleListener) 11 12) \<and>
   lg_blockNumber (sampleLog 11 0 ''0xa'') = 11"
proof -
  let ?U = "sampleUpstream receiptMissing"
  have k: "map effectKey (fst (scanForNewBlocks ?U alwaysRunning sampleListener))
     = [Inl (11, Some 1, ''0xb''), Inl (12, Some 0, ''0xc''), Inr 12]"
    unfolding sample_tick fst_conv effectKey_trace sample_processed
    by (simp add: receiptFound_sample)
  have c: "ls_lastProcessedBlock (snd (scanForNewBlocks ?U alwaysRunning sampleListener)) = 12"
    by (simp add: sample_tick)
  have l: "(sampleConfig, ''Transfer'', sampleLog 11 0 ''0xa'')
     \<in> set (spec_matchingLogs ?U (ls_contractConfigs sampleListener) 11 12)"
    by (simp add: sampleListener_fields sample_logs)
  from k c l show ?thesis by (simp add: sampleLog_fields)
qed

text \<open>
  What the amended C2 leaves out. Stopped at the head of the second iteration, the
  sample tick enqueues the first event only and still sets the cursor to 12: the
  assignment after \<open>processBlockRangeWithBatching\<close> does not look at \<open>isRunning()\<close>.
\<close>

lemma stop_mid_tick_sets_cursor:
  "map effectKey (fst (scanForNewBlocks (sampleUpstream receiptsFound) (stoppedAt 1)
        sampleListener))
     = [Inl (11, Some 0, ''0xa''), Inr 12] \<and>
   ls_lastProcessedBlock (snd (scanForNewBlocks (sampleUpstream receiptsFound) (stoppedAt 1)
        sampleListener)) = 12"
proof -
  let ?U = "sampleUpstream receiptsFound"
  let ?collected = "getAllContractEventsInRange ?U [sampleConfig] 11 12"
  have w: "getBlockNumber ?U = Inr 12" "ls_lastProcessedBlock sampleListener < 12"
    by (simp_all add: sampleUpstream_fields sampleListener_fields)
  have one: "processEvents (Suc 0) ?U (stoppedAt (Suc 0)) 0 es
      = List.map_filter (processContractEvent (Suc 0) ?U) (take (Suc 0) es)" for es
  proof (cases es)
    case Nil
    then show ?thesis by (simp add: List.map_filter_simps)
  next
    case (Cons e rest)
    have "processEvents (Suc 0) ?U (stoppedAt (Suc 0)) (Suc 0) rest = []"
      by (cases rest) (simp_all add: stoppedAt_def)
    with Cons show ?thesis
      by (simp add: stoppedAt_def List.map_filter_simps split: option.splits)
  qed
  have t: "scanForNewBlocks ?U (stoppedAt 1) sampleListener
      = (map Enqueue (List.map_filter (processContractEvent 1 ?U) (take 1 ?collected))
           @ [SetCursor 12], sampleListener\<lparr>ls_lastProcessedBlock := 12\<rparr>)"
    unfolding tick_window [OF w]
    by (simp add: processBlockRangeWithBatching_def sampleListener_fields one)
  have "map logOf (List.map_filter (processContractEvent 1 ?U) (take 1 ?collected))
      = [(11, Some 0, ''0xa'')]"
    unfolding map_logOf_processed sample_collected
    by (simp add: receiptFound_sample toContractEvent_def sampleLog_fields)
  then show ?thesis unfolding t fst_conv snd_conv effectKey_trace by simp
qed


text \<open>
  Every call of \<open>dispatchEvent\<close> appends its event to the dispatcher's history of pushes,
  however the drain loop's steps interleave with the calls.
\<close>

lemma enqueued_loopHead: "enqueued (loopHead r) = enqueued r"
  by (simp add: loopHead_def Let_def split: list.splits prod.splits)

lemma enqueued_step:
  "enqueued (step r a) = enqueued r @ (case a of Dispatch ev \<Rightarrow> [ev] | Settled i \<Rightarrow> [])"
  by (cases a) (simp_all add: Let_def enqueued_loopHead)

lemma enqueued_steps:
  "enqueued (foldl step r acts)
     = enqueued r @ concat (map (\<lambda>a. case a of Dispatch ev \<Rightarrow> [ev] | Settled i \<Rightarrow> []) acts)"
  by (induction acts arbitrary: r) (simp_all add: enqueued_step)


end
